theory Spec2Isabelle
  imports Complex_Main
begin

section \<open>JavaScript numbers\<close>

text \<open>
  The program computes with JavaScript numbers. A finite number is modelled by the exact
  rational it denotes (the rounding of IEEE doubles and the sign of zero are not
  modelled); the two infinities and NaN are kept, since a division by zero yields them
  instead of raising.
\<close>

datatype number = Num rat | PosInfinity | NegInfinity | NaN

fun js_neg :: "number \<Rightarrow> number" where
  "js_neg (Num a) = Num (- a)"
| "js_neg PosInfinity = NegInfinity"
| "js_neg NegInfinity = PosInfinity"
| "js_neg NaN = NaN"

fun js_add :: "number \<Rightarrow> number \<Rightarrow> number" where
  "js_add (Num a) (Num b) = Num (a + b)"
| "js_add NaN _ = NaN"
| "js_add _ NaN = NaN"
| "js_add PosInfinity NegInfinity = NaN"
| "js_add NegInfinity PosInfinity = NaN"
| "js_add PosInfinity _ = PosInfinity"
| "js_add _ PosInfinity = PosInfinity"
| "js_add NegInfinity _ = NegInfinity"
| "js_add _ NegInfinity = NegInfinity"

definition js_sub :: "number \<Rightarrow> number \<Rightarrow> number" where
  "js_sub a b = js_add a (js_neg b)"

fun js_mul :: "number \<Rightarrow> number \<Rightarrow> number" where
  "js_mul (Num a) (Num b) = Num (a * b)"
| "js_mul NaN _ = NaN"
| "js_mul _ NaN = NaN"
| "js_mul PosInfinity (Num b) =
     (if b = 0 then NaN else if 0 < b then PosInfinity else NegInfinity)"
| "js_mul NegInfinity (Num b) =
     (if b = 0 then NaN else if 0 < b then NegInfinity else PosInfinity)"
| "js_mul (Num a) PosInfinity =
     (if a = 0 then NaN else if 0 < a then PosInfinity else NegInfinity)"
| "js_mul (Num a) NegInfinity =
     (if a = 0 then NaN else if 0 < a then NegInfinity else PosInfinity)"
| "js_mul PosInfinity PosInfinity = PosInfinity"
| "js_mul NegInfinity NegInfinity = PosInfinity"
| "js_mul PosInfinity NegInfinity = NegInfinity"
| "js_mul NegInfinity PosInfinity = NegInfinity"

fun js_div :: "number \<Rightarrow> number \<Rightarrow> number" where
  "js_div (Num a) (Num b) =
     (if b = 0 then (if a = 0 then NaN else if 0 < a then PosInfinity else NegInfinity)
      else Num (a / b))"
| "js_div NaN _ = NaN"
| "js_div _ NaN = NaN"
| "js_div (Num a) _ = Num 0"
| "js_div PosInfinity (Num b) = (if 0 \<le> b then PosInfinity else NegInfinity)"
| "js_div NegInfinity (Num b) = (if 0 \<le> b then NegInfinity else PosInfinity)"
| "js_div _ _ = NaN"

fun js_ge :: "number \<Rightarrow> number \<Rightarrow> bool" where
  "js_ge (Num a) (Num b) = (b \<le> a)"
| "js_ge NaN _ = False"
| "js_ge _ NaN = False"
| "js_ge PosInfinity _ = True"
| "js_ge _ NegInfinity = True"
| "js_ge _ _ = False"

fun js_gt :: "number \<Rightarrow> number \<Rightarrow> bool" where
  "js_gt (Num a) (Num b) = (b < a)"
| "js_gt NaN _ = False"
| "js_gt _ NaN = False"
| "js_gt PosInfinity PosInfinity = False"
| "js_gt NegInfinity NegInfinity = False"
| "js_gt PosInfinity _ = True"
| "js_gt _ NegInfinity = True"
| "js_gt _ _ = False"

text \<open>\<^verbatim>\<open>Math.round\<close> rounds to the nearest integer, a tie towards plus infinity.\<close>

fun Math_round :: "number \<Rightarrow> number" where
  "Math_round (Num a) = Num (of_int \<lfloor>a + 1 / 2\<rfloor>)"
| "Math_round x = x"

fun Math_floor :: "number \<Rightarrow> number" where
  "Math_floor (Num a) = Num (of_int \<lfloor>a\<rfloor>)"
| "Math_floor x = x"

fun Math_max :: "number \<Rightarrow> number \<Rightarrow> number" where
  "Math_max NaN _ = NaN"
| "Math_max _ NaN = NaN"
| "Math_max a b = (if js_ge a b then a else b)"

fun Math_min :: "number \<Rightarrow> number \<Rightarrow> number" where
  "Math_min NaN _ = NaN"
| "Math_min _ NaN = NaN"
| "Math_min a b = (if js_ge b a then a else b)"

section \<open>Quality Estimator\<close>

text \<open>\<^verbatim>\<open>const TARGET_SIZE = 100 * 1024\<close>\<close>

definition TARGET_SIZE :: nat where
  "TARGET_SIZE = 100 * 1024"

text \<open>\<^verbatim>\<open>estimateQuality(sizeRatio)\<close>, branch by branch.\<close>

definition estimateQuality :: "number \<Rightarrow> number" where
  "estimateQuality sizeRatio =
     (if js_ge sizeRatio (Num (8 / 10)) then
        Math_round (js_add (Num 85) (js_mul (js_sub sizeRatio (Num (8 / 10))) (Num 50)))
      else if js_ge sizeRatio (Num (5 / 10)) then
        Math_round (js_add (Num 70) (js_mul (js_sub sizeRatio (Num (5 / 10))) (Num 50)))
      else if js_ge sizeRatio (Num (3 / 10)) then
        Math_round (js_add (Num 50) (js_mul (js_sub sizeRatio (Num (3 / 10))) (Num 100)))
      else
        Math_round (js_add (Num 30) (js_mul sizeRatio (Num (667 / 10)))))"

text \<open>
  The first lines of \<^verbatim>\<open>compressWithRatio\<close>: the ratio
  \<^verbatim>\<open>TARGET_SIZE / originalSize\<close> and the estimate, brought into 10..95 by
  \<^verbatim>\<open>Math.max(10, Math.min(95, estimatedQuality))\<close>.
\<close>

definition sizeRatio :: "nat \<Rightarrow> number" where
  "sizeRatio originalSize = js_div (Num (of_nat TARGET_SIZE)) (Num (of_nat originalSize))"

definition clampQuality :: "number \<Rightarrow> number" where
  "clampQuality q = Math_max (Num 10) (Math_min (Num 95) q)"

definition estimatedQuality :: "nat \<Rightarrow> number" where
  "estimatedQuality originalSize = clampQuality (estimateQuality (sizeRatio originalSize))"

text \<open>
  The estimator as the specification words it: a piecewise-linear formula over the
  ratio, rounded to the nearest integer, then clamped to 10..95.
\<close>

definition spec_formula :: "rat \<Rightarrow> rat" where
  "spec_formula ratio =
     (if 8 / 10 \<le> ratio then 85 + (ratio - 8 / 10) * 50
      else if 5 / 10 \<le> ratio \<and> ratio < 8 / 10 then 70 + (ratio - 5 / 10) * 50
      else if 3 / 10 \<le> ratio \<and> ratio < 5 / 10 then 50 + (ratio - 3 / 10) * 100
      else 30 + ratio * (667 / 10))"

definition spec_seed :: "rat \<Rightarrow> int" where
  "spec_seed ratio = max 10 (min 95 (round (spec_formula ratio)))"

section \<open>Configuration: the globals set from the command line\<close>

text \<open>
  \<^verbatim>\<open>targetWidth\<close>, \<^verbatim>\<open>targetHeight\<close> and \<^verbatim>\<open>targetFormat\<close> start as
  \<^verbatim>\<open>null\<close> (here \<open>None\<close>); \<^verbatim>\<open>MAX_DIMENSION\<close> starts as 1920.
\<close>

record globals =
  targetWidth :: "number option"
  targetHeight :: "number option"
  targetFormat :: "string option"
  MAX_DIMENSION :: int

text \<open>Truthiness: \<^verbatim>\<open>null\<close>, 0, NaN and the empty string are falsy.\<close>

fun truthy_number :: "number option \<Rightarrow> bool" where
  "truthy_number None = False"
| "truthy_number (Some (Num a)) = (a \<noteq> 0)"
| "truthy_number (Some NaN) = False"
| "truthy_number (Some _) = True"

fun truthy_string :: "string option \<Rightarrow> bool" where
  "truthy_string None = False"
| "truthy_string (Some s) = (s \<noteq> [])"

definition startsWith :: "string \<Rightarrow> string \<Rightarrow> bool" where
  "startsWith s p = (take (length p) s = p)"

text \<open>
  \<^verbatim>\<open>arg.split('=')[1]\<close> for an argument that starts with a letter and \<open>=\<close>: the text
  between the first \<open>=\<close> and the next one (or the end).
\<close>

definition split_eq_1 :: "string \<Rightarrow> string" where
  "split_eq_1 arg = takeWhile (\<lambda>c. c \<noteq> CHR ''='') (drop 2 arg)"

text \<open>\<^verbatim>\<open>toLowerCase\<close> on the ASCII letters; other characters are left as they are.\<close>

definition lower_char :: "char \<Rightarrow> char" where
  "lower_char c =
     (case map_of (zip ''ABCDEFGHIJKLMNOPQRSTUVWXYZ'' ''abcdefghijklmnopqrstuvwxyz'') c of
        Some l \<Rightarrow> l
      | None \<Rightarrow> c)"

definition toLowerCase :: "string \<Rightarrow> string" where
  "toLowerCase s = map lower_char s"

definition initial_globals :: globals where
  "initial_globals =
     \<lparr>targetWidth = None, targetHeight = None, targetFormat = None, MAX_DIMENSION = 1920\<rparr>"

text \<open>
  One step of \<^verbatim>\<open>args.forEach\<close>. \<^verbatim>\<open>parseInt\<close> is the JavaScript builtin, taken as
  a parameter.
\<close>

definition apply_arg :: "(string \<Rightarrow> number) \<Rightarrow> globals \<Rightarrow> string \<Rightarrow> globals" where
  "apply_arg parseInt g arg =
     (if startsWith arg ''w='' then g\<lparr>targetWidth := Some (parseInt (split_eq_1 arg))\<rparr>
      else if startsWith arg ''h='' then g\<lparr>targetHeight := Some (parseInt (split_eq_1 arg))\<rparr>
      else if startsWith arg ''t='' then g\<lparr>targetFormat := Some (toLowerCase (split_eq_1 arg))\<rparr>
      else g)"

text \<open>
  The start-up code: the arguments are read, then
  \<^verbatim>\<open>if (targetWidth || targetHeight) MAX_DIMENSION = 0\<close>.
\<close>

definition parse_args :: "(string \<Rightarrow> number) \<Rightarrow> string list \<Rightarrow> globals" where
  "parse_args parseInt args =
     (let g = foldl (apply_arg parseInt) initial_globals args
      in if truthy_number (targetWidth g) \<or> truthy_number (targetHeight g)
         then g\<lparr>MAX_DIMENSION := 0\<rparr> else g)"

section \<open>Resize Planner\<close>

datatype fit = Fill | Inside

text \<open>The options object given to \<^verbatim>\<open>resize\<close>; \<open>None\<close> is a property that is not set.\<close>

record resizeOptions =
  width :: "number option"
  height :: "number option"
  fit :: "fit option"
  withoutEnlargement :: "bool option"

definition no_options :: resizeOptions where
  "no_options = \<lparr>width = None, height = None, fit = None, withoutEnlargement = None\<rparr>"

type_synonym buffer = "nat list"

datatype input = Path string | Buf buffer

text \<open>A sharp pipeline: what it reads, and the resize it was given (if any).\<close>

record sharpInstance =
  source :: input
  resizing :: "resizeOptions option"

definition sharp :: "input \<Rightarrow> sharpInstance" where
  "sharp i = \<lparr>source = i, resizing = None\<rparr>"

definition resize :: "sharpInstance \<Rightarrow> resizeOptions \<Rightarrow> sharpInstance" where
  "resize inst opts = inst\<lparr>resizing := Some opts\<rparr>"

text \<open>
  Lines 100 to 133 of \<^verbatim>\<open>compressWithRatio\<close>: the resize of the first attempt, and
  \<^verbatim>\<open>willResize\<close>.
\<close>

definition initialResize :: "globals \<Rightarrow> sharpInstance \<Rightarrow> sharpInstance \<times> bool" where
  "initialResize g sharpInstance =
     (if truthy_number (targetWidth g) \<or> truthy_number (targetHeight g) then
        (let resizeOptions =
           (if truthy_number (targetWidth g) \<and> truthy_number (targetHeight g) then
              no_options\<lparr>width := targetWidth g, height := targetHeight g, fit := Some Fill\<rparr>
            else if truthy_number (targetWidth g) then
              no_options\<lparr>width := targetWidth g, fit := Some Inside,
                          withoutEnlargement := Some True\<rparr>
            else if truthy_number (targetHeight g) then
              no_options\<lparr>height := targetHeight g, fit := Some Inside,
                          withoutEnlargement := Some True\<rparr>
            else no_options)
         in (resize sharpInstance resizeOptions, True))
      else if 0 < MAX_DIMENSION g then
        (resize sharpInstance
           \<lparr>width = Some (Num (of_int (MAX_DIMENSION g))),
            height = Some (Num (of_int (MAX_DIMENSION g))),
            fit = Some Inside, withoutEnlargement = Some True\<rparr>, True)
      else (sharpInstance, False))"

text \<open>Lines 175 to 201: the same decision, written out again inside the loop.\<close>

definition refineResize :: "globals \<Rightarrow> sharpInstance \<Rightarrow> sharpInstance" where
  "refineResize g sharpInstance =
     (if truthy_number (targetWidth g) \<or> truthy_number (targetHeight g) then
        (let resizeOptions =
           (if truthy_number (targetWidth g) \<and> truthy_number (targetHeight g) then
              no_options\<lparr>width := targetWidth g, height := targetHeight g, fit := Some Fill\<rparr>
            else if truthy_number (targetWidth g) then
              no_options\<lparr>width := targetWidth g, fit := Some Inside,
                          withoutEnlargement := Some True\<rparr>
            else if truthy_number (targetHeight g) then
              no_options\<lparr>height := targetHeight g, fit := Some Inside,
                          withoutEnlargement := Some True\<rparr>
            else no_options)
         in resize sharpInstance resizeOptions)
      else if 0 < MAX_DIMENSION g then
        resize sharpInstance
           \<lparr>width = Some (Num (of_int (MAX_DIMENSION g))),
            height = Some (Num (of_int (MAX_DIMENSION g))),
            fit = Some Inside, withoutEnlargement = Some True\<rparr>
      else sharpInstance)"

text \<open>
  sharp enlarges unless \<^verbatim>\<open>withoutEnlargement\<close> is set to true (its default is false).
\<close>

definition enlargementAllowed :: "resizeOptions \<Rightarrow> bool" where
  "enlargementAllowed opts = (withoutEnlargement opts \<noteq> Some True)"

section \<open>The external collaborators\<close>

text \<open>
  The file system of Node and the sharp library are outside the program. They are taken
  as a record of operations over a state of the world \<open>'w\<close>; every operation that can
  throw returns a sum, with \<open>Inl\<close> for the exception. \<^verbatim>\<open>toBuffer\<close> stands for running a
  whole pipeline (decode, resize, encode) and leaves the world as it is. A pipeline is a
  value here: an exception that sharp throws while the pipeline is put together (it
  rejects an invalid option of \<^verbatim>\<open>resize\<close> or of an encoder at that point) is counted to
  the \<^verbatim>\<open>toBuffer\<close> call of that pipeline; it ends in the same \<^verbatim>\<open>catch\<close>. A buffer is
  a list of bytes, of which the program only reads the length.
\<close>

datatype error = Error string

datatype encoder = Png | Webp | Tiff | Jpeg

datatype formatOptions = Quality number | CompressionLevel number

record encode_call =
  pipeline :: sharpInstance
  encoder :: encoder
  options :: formatOptions

record 'w env =
  statSync :: "'w \<Rightarrow> string \<Rightarrow> error + nat"
  readdirSync :: "'w \<Rightarrow> error + string list"
  writeFileSync :: "'w \<Rightarrow> string \<Rightarrow> buffer \<Rightarrow> error + 'w"
  unlinkSync :: "'w \<Rightarrow> string \<Rightarrow> error + 'w"
  metadata :: "'w \<Rightarrow> input \<Rightarrow> error + number \<times> number"
  toBuffer :: "'w \<Rightarrow> encode_call \<Rightarrow> error + buffer"

text \<open>\<^verbatim>\<open>getFileSize\<close>: a failing \<^verbatim>\<open>statSync\<close> is caught and reported as size 0.\<close>

definition getFileSize :: "'w env \<Rightarrow> 'w \<Rightarrow> string \<Rightarrow> nat" where
  "getFileSize e w filePath =
     (case statSync e w filePath of Inr sz \<Rightarrow> sz | Inl err \<Rightarrow> 0)"

text \<open>\<^verbatim>\<open>getImageDimensions\<close>: a failing metadata read is caught and reported as 0 by 0.\<close>

definition getImageDimensions :: "'w env \<Rightarrow> 'w \<Rightarrow> string \<Rightarrow> number \<times> number" where
  "getImageDimensions e w filePath =
     (case metadata e w (Path filePath) of Inr d \<Rightarrow> d | Inl err \<Rightarrow> (Num 0, Num 0))"

section \<open>Compression Search\<close>

text \<open>
  \<^verbatim>\<open>let outputFormat = 'jpeg'; if (targetFormat) outputFormat = targetFormat\<close>
\<close>

definition outputFormat :: "globals \<Rightarrow> string" where
  "outputFormat g =
     (case targetFormat g of
        Some t \<Rightarrow> (if truthy_string (Some t) then t else ''jpeg'')
      | None \<Rightarrow> ''jpeg'')"

text \<open>The two \<^verbatim>\<open>switch (outputFormat)\<close> statements: which encoder is called.\<close>

definition encoderFor :: "string \<Rightarrow> encoder" where
  "encoderFor fmt =
     (if fmt = ''png'' then Png else if fmt = ''webp'' then Webp
      else if fmt = ''tiff'' then Tiff else Jpeg)"

text \<open>
  The options of the first attempt (lines 136 to 147) and of a refinement attempt
  (lines 203 to 208).
\<close>

definition compressionLevel :: "number \<Rightarrow> number" where
  "compressionLevel q = Math_floor (js_div (js_sub (Num 100) q) (Num 10))"

definition formatOptionsFor :: "string \<Rightarrow> number \<Rightarrow> formatOptions" where
  "formatOptionsFor fmt q =
     (if fmt = ''png'' then CompressionLevel (compressionLevel q) else Quality q)"

text \<open>
  The \<^verbatim>\<open>while\<close> loop. Beside the loop's variables the function returns the attempts
  it made, each with the value of \<^verbatim>\<open>quality\<close> it was made at; an exception of
  \<^verbatim>\<open>toBuffer\<close> ends the loop with \<open>Inl\<close>.
\<close>

function refine ::
  "'w env \<Rightarrow> 'w \<Rightarrow> globals \<Rightarrow> string \<Rightarrow> buffer \<Rightarrow> number \<Rightarrow> nat
     \<Rightarrow> (number \<times> encode_call) list \<times> (error + buffer \<times> number \<times> nat)" where
  "refine e w g filePath compressedBuffer quality attempts =
     (if TARGET_SIZE < length compressedBuffer \<and> js_gt quality (Num 10) \<and> attempts < 5 then
        (let quality' = js_sub quality (Num 10);
             sharpInstance = refineResize g (sharp (Path filePath));
             formatOpts = formatOptionsFor (outputFormat g) quality';
             call = \<lparr>pipeline = sharpInstance, encoder = encoderFor (outputFormat g),
                     options = formatOpts\<rparr>
         in case toBuffer e w call of
              Inl err \<Rightarrow> ([(quality', call)], Inl err)
            | Inr buf \<Rightarrow>
                (case refine e w g filePath buf quality' (attempts + 1) of
                   (tr, r) \<Rightarrow> ((quality', call) # tr, r)))
      else ([], Inr (compressedBuffer, quality, attempts)))"
  by pat_completeness auto
termination
  by (relation "measure (\<lambda>(e, w, g, filePath, compressedBuffer, quality, attempts). 5 - attempts)")
     auto

declare refine.simps [simp del]

text \<open>\<^verbatim>\<open>path.extname\<close> of a directory entry (a name without a slash).\<close>

definition extname :: "string \<Rightarrow> string" where
  "extname p =
     (if CHR ''.'' \<notin> set p then []
      else let e = rev (takeWhile (\<lambda>c. c \<noteq> CHR ''.'') (rev p));
               stem = take (length p - length e - 1) p
           in if stem = [] \<or> p = ''..'' then [] else CHR ''.'' # e)"

text \<open>\<^verbatim>\<open>s.slice(0, -n)\<close>; with \<open>n = 0\<close> this is \<^verbatim>\<open>s.slice(0, 0)\<close>, the empty string.\<close>

definition slice_0_neg :: "string \<Rightarrow> nat \<Rightarrow> string" where
  "slice_0_neg s n = (if n = 0 then [] else take (length s - n) s)"

definition newFilePath :: "globals \<Rightarrow> string \<Rightarrow> string" where
  "newFilePath g filePath =
     (case targetFormat g of
        Some t \<Rightarrow>
          (if truthy_string (Some t)
           then slice_0_neg filePath (length (extname filePath)) @ ''.'' @ t
           else filePath)
      | None \<Rightarrow> filePath)"

text \<open>
  What one call of \<^verbatim>\<open>compressWithRatio\<close> leaves: the size it returns, the world after
  it, the attempts it made (first attempt first) and the dimensions it printed.
\<close>

record 'w outcome =
  returned :: nat
  world_after :: 'w
  attempts_log :: "(number \<times> encode_call) list"
  originalDimensions :: "number \<times> number"

text \<open>
  \<^verbatim>\<open>compressWithRatio\<close>. Every exception inside its \<^verbatim>\<open>try\<close> block ends in the
  \<^verbatim>\<open>catch\<close>, which returns \<^verbatim>\<open>originalSize\<close>.
\<close>

definition compressWithRatio :: "'w env \<Rightarrow> globals \<Rightarrow> 'w \<Rightarrow> string \<Rightarrow> nat \<Rightarrow> 'w outcome" where
  "compressWithRatio e g w filePath originalSize =
     (let dims = getImageDimensions e w filePath;
          q0 = estimatedQuality originalSize;
          (sharpInstance, willResize) = initialResize g (sharp (Path filePath));
          formatOptions = formatOptionsFor (outputFormat g) q0;
          call0 = \<lparr>pipeline = sharpInstance, encoder = encoderFor (outputFormat g),
                   options = formatOptions\<rparr>;
          caught = (\<lambda>w' tr. \<lparr>returned = originalSize, world_after = w',
                     attempts_log = tr, originalDimensions = dims\<rparr>)
      in case toBuffer e w call0 of
           Inl err \<Rightarrow> caught w [(q0, call0)]
         | Inr buf0 \<Rightarrow>
            (case refine e w g filePath buf0 q0 0 of
               (tr, Inl err) \<Rightarrow> caught w ((q0, call0) # tr)
             | (tr, Inr (compressedBuffer, quality, attempts)) \<Rightarrow>
                (case (if willResize then metadata e w (Buf compressedBuffer)
                       else Inr (Num 0, Num 0)) of
                   Inl err \<Rightarrow> caught w ((q0, call0) # tr)
                 | Inr newMetadata \<Rightarrow>
                    (case writeFileSync e w (newFilePath g filePath) compressedBuffer of
                       Inl err \<Rightarrow> caught w ((q0, call0) # tr)
                     | Inr w1 \<Rightarrow>
                        (if filePath \<noteq> newFilePath g filePath then
                           (case unlinkSync e w1 filePath of
                              Inl err \<Rightarrow> caught w1 ((q0, call0) # tr)
                            | Inr w2 \<Rightarrow>
                               \<lparr>returned = length compressedBuffer, world_after = w2,
                                attempts_log = (q0, call0) # tr, originalDimensions = dims\<rparr>)
                         else
                           \<lparr>returned = length compressedBuffer, world_after = w1,
                            attempts_log = (q0, call0) # tr, originalDimensions = dims\<rparr>)))))"

section \<open>Batch Driver\<close>

text \<open>The lines the driver prints about a file, and its two end messages.\<close>

datatype event =
    SkippingUnreadable string
  | SkippingUnderTarget string nat
  | Processing string nat
  | Compressed string nat
  | FailedToCompress string
  | NoImagesFound
  | ErrorDuringCompression

record 'w batch =
  world :: 'w
  processedCount :: nat
  skippedCount :: nat
  console :: "event list"

text \<open>
  \<^verbatim>\<open>needsFormatConversion = targetFormat && targetFormat !== ext\<close> and
  \<^verbatim>\<open>needsResize = targetWidth || targetHeight || MAX_DIMENSION > 0\<close>, as truth values.
\<close>

definition needsFormatConversion :: "globals \<Rightarrow> string \<Rightarrow> bool" where
  "needsFormatConversion g file =
     (truthy_string (targetFormat g) \<and>
      targetFormat g \<noteq> Some (drop 1 (toLowerCase (extname file))))"

definition needsResize :: "globals \<Rightarrow> bool" where
  "needsResize g =
     (truthy_number (targetWidth g) \<or> truthy_number (targetHeight g) \<or> 0 < MAX_DIMENSION g)"

text \<open>
  The \<^verbatim>\<open>for\<close> loop over the image files. \<open>Processing file size\<close> is printed
  right before \<^verbatim>\<open>compressWithRatio(file, originalSize)\<close> is called, and nowhere else.
\<close>

fun processFiles :: "'w env \<Rightarrow> globals \<Rightarrow> string list \<Rightarrow> 'w batch \<Rightarrow> 'w batch" where
  "processFiles e g [] st = st"
| "processFiles e g (file # files) st =
     (let originalSize = getFileSize e (world st) file in
      if originalSize = 0 then
        processFiles e g files (st\<lparr>console := console st @ [SkippingUnreadable file]\<rparr>)
      else if originalSize \<le> TARGET_SIZE \<and> \<not> needsFormatConversion g file \<and> \<not> needsResize g then
        processFiles e g files
          (st\<lparr>skippedCount := skippedCount st + 1,
              console := console st @ [SkippingUnderTarget file originalSize]\<rparr>)
      else
        (let r = compressWithRatio e g (world st) file originalSize in
         if returned r < originalSize then
           processFiles e g files
             (st\<lparr>world := world_after r, processedCount := processedCount st + 1,
                 console := console st @ [Processing file originalSize, Compressed file (returned r)]\<rparr>)
         else
           processFiles e g files
             (st\<lparr>world := world_after r,
                 console := console st @ [Processing file originalSize, FailedToCompress file]\<rparr>)))"

definition isImageFile :: "string \<Rightarrow> bool" where
  "isImageFile file =
     (let ext = toLowerCase (extname file)
      in ext = ''.webp'' \<or> ext = ''.png'' \<or> ext = ''.tiff'' \<or> ext = ''.tif'')"

text \<open>
  \<^verbatim>\<open>compressImages\<close>: the directory is read, the image files are kept, and the loop
  runs over them. A failing \<^verbatim>\<open>readdirSync\<close> ends in the outer \<^verbatim>\<open>catch\<close>.
\<close>

definition compressImages :: "'w env \<Rightarrow> globals \<Rightarrow> 'w \<Rightarrow> 'w batch" where
  "compressImages e g w =
     (let st0 = \<lparr>world = w, processedCount = 0, skippedCount = 0, console = []\<rparr>
      in case readdirSync e w of
           Inl err \<Rightarrow> st0\<lparr>console := [ErrorDuringCompression]\<rparr>
         | Inr files \<Rightarrow>
            (let imageFiles = filter isImageFile files
             in if length imageFiles = 0 then st0\<lparr>console := [NoImagesFound]\<rparr>
                else processFiles e g imageFiles st0))"

section \<open>Auxiliary notions for the statements\<close>

text \<open>
  The call a refinement attempt makes at the lowered quality \<open>q'\<close>, the call of the first
  attempt at the quality \<open>q0\<close>, and the condition of the \<^verbatim>\<open>while\<close> loop, named so that
  the statements below can refer to them.
\<close>

definition refineCall :: "globals \<Rightarrow> string \<Rightarrow> number \<Rightarrow> encode_call" where
  "refineCall g filePath q' =
     \<lparr>pipeline = refineResize g (sharp (Path filePath)), encoder = encoderFor (outputFormat g),
      options = formatOptionsFor (outputFormat g) q'\<rparr>"

definition firstCall :: "globals \<Rightarrow> string \<Rightarrow> number \<Rightarrow> encode_call" where
  "firstCall g filePath q0 =
     \<lparr>pipeline = fst (initialResize g (sharp (Path filePath))),
      encoder = encoderFor (outputFormat g),
      options = formatOptionsFor (outputFormat g) q0\<rparr>"

definition loopGuard :: "buffer \<Rightarrow> number \<Rightarrow> nat \<Rightarrow> bool" where
  "loopGuard compressedBuffer quality attempts =
     (TARGET_SIZE < length compressedBuffer \<and> js_gt quality (Num 10) \<and> attempts < 5)"

text \<open>The attempts that follow the first one: none when the first attempt fails.\<close>

definition laterAttempts ::
  "'w env \<Rightarrow> globals \<Rightarrow> 'w \<Rightarrow> string \<Rightarrow> nat \<Rightarrow> (number \<times> encode_call) list" where
  "laterAttempts e g w filePath originalSize =
     (case toBuffer e w (firstCall g filePath (estimatedQuality originalSize)) of
        Inl err \<Rightarrow> []
      | Inr buf0 \<Rightarrow> fst (refine e w g filePath buf0 (estimatedQuality originalSize) 0))"

text \<open>The driver's rule for leaving a file of \<open>n > 0\<close> bytes alone.\<close>

definition skipRule :: "globals \<Rightarrow> string \<Rightarrow> nat \<Rightarrow> bool" where
  "skipRule g file n =
     (n \<le> TARGET_SIZE \<and> \<not> needsFormatConversion g file \<and> \<not> needsResize g)"

text \<open>The file an output line of the driver is about.\<close>

fun event_file :: "event \<Rightarrow> string option" where
  "event_file (SkippingUnreadable f) = Some f"
| "event_file (SkippingUnderTarget f n) = Some f"
| "event_file (Processing f n) = Some f"
| "event_file (Compressed f n) = Some f"
| "event_file (FailedToCompress f) = Some f"
| "event_file NoImagesFound = None"
| "event_file ErrorDuringCompression = None"

section \<open>A small world to run the definitions in\<close>

text \<open>
  A directory is a list of entries: a name, the size of the file in bytes, and how its
  content behaves under the codec. A plain image shrinks to a tenth of its size at a
  quality below 30 and to half of it otherwise; an incompressible one shrinks to half its
  size whatever the quality; a corrupt one makes every pipeline fail.
\<close>

datatype kind = Plain | Incompressible | Corrupt

type_synonym sim_world = "(string \<times> nat \<times> kind) list"

definition sim_toBuffer :: "sim_world \<Rightarrow> encode_call \<Rightarrow> error + buffer" where
  "sim_toBuffer w c =
     (case source (pipeline c) of
        Buf b \<Rightarrow> Inr b
      | Path p \<Rightarrow>
         (case map_of w p of
            None \<Rightarrow> Inl (Error ''ENOENT'')
          | Some (n, Corrupt) \<Rightarrow> Inl (Error ''unsupported image format'')
          | Some (n, Incompressible) \<Rightarrow> Inr (replicate (n div 2) 0)
          | Some (n, Plain) \<Rightarrow>
             (case options c of
                Quality (Num q) \<Rightarrow>
                  (if q < 30 then Inr (replicate (n div 10) 0) else Inr (replicate (n div 2) 0))
              | _ \<Rightarrow> Inr (replicate (n div 2) 0))))"

definition sim_env :: "sim_world env" where
  "sim_env =
     \<lparr>statSync = (\<lambda>w p. case map_of w p of
                            None \<Rightarrow> Inl (Error ''ENOENT'')
                          | Some (n, k) \<Rightarrow> Inr n),
      readdirSync = (\<lambda>w. Inr (map fst w)),
      writeFileSync = (\<lambda>w p b. Inr ((p, length b, Plain) # filter (\<lambda>x. fst x \<noteq> p) w)),
      unlinkSync = (\<lambda>w p. case map_of w p of
                              None \<Rightarrow> Inl (Error ''ENOENT'')
                            | Some x \<Rightarrow> Inr (filter (\<lambda>x. fst x \<noteq> p) w)),
      metadata = (\<lambda>w i. Inr (Num 100, Num 100)),
      toBuffer = sim_toBuffer\<rparr>"

text \<open>A stand-in for \<^verbatim>\<open>parseInt\<close> on decimal numerals: the leading digits, or NaN.\<close>

definition parseInt_decimal :: "string \<Rightarrow> number" where
  "parseInt_decimal s =
     (let ds = takeWhile (\<lambda>c. (48::nat) \<le> of_char c \<and> (of_char c :: nat) \<le> 57) s
      in if ds = [] then NaN
         else Num (of_nat (foldl (\<lambda>a c. 10 * a + ((of_char c :: nat) - 48)) 0 ds)))"

text \<open>A directory with one file of each kind, a text file and an empty file.\<close>

definition sim_dir :: sim_world where
  "sim_dir =
     [(''small.png'', 50000, Plain),
      (''big.png'', 471040, Incompressible),
      (''bad.webp'', 300000, Corrupt),
      (''notes.txt'', 10, Plain),
      (''empty.tif'', 0, Plain),
      (''photo.tiff'', 500000, Plain)]"

text \<open>The driver's state before the first file of that directory.\<close>

definition sim_start :: "sim_world batch" where
  "sim_start = \<lparr>world = sim_dir, processedCount = 0, skippedCount = 0, console = []\<rparr>"

section \<open>Facts about the estimator\<close>

lemma estimateQuality_Num:
  "estimateQuality (Num r) = Num (of_int (round (spec_formula r)))"
  by (simp add: estimateQuality_def spec_formula_def js_sub_def round_def)

lemma clampQuality_int:
  "clampQuality (Num (of_int k)) = Num (of_int (max 10 (min 95 k)))"
  by (simp add: clampQuality_def max_def min_def)

lemma seed_eq: "clampQuality (estimateQuality (Num r)) = Num (of_int (spec_seed r))"
  by (simp add: estimateQuality_Num clampQuality_int spec_seed_def)

lemma spec_seed_range: "10 \<le> spec_seed r \<and> spec_seed r \<le> 95"
  by (simp add: spec_seed_def)

lemma spec_seed_high: "8/10 \<le> r \<Longrightarrow> 85 \<le> spec_seed r"
  unfolding spec_seed_def spec_formula_def round_def
  by (simp add: le_floor_iff)

lemma sizeRatio_pos: "0 < n \<Longrightarrow> sizeRatio n = Num (of_nat TARGET_SIZE / of_nat n)"
  by (simp add: sizeRatio_def)

lemma sizeRatio_0: "sizeRatio 0 = PosInfinity"
  by (simp add: sizeRatio_def TARGET_SIZE_def)

lemma estimatedQuality_0: "estimatedQuality 0 = Num 95"
  by (simp add: estimatedQuality_def sizeRatio_0 estimateQuality_def clampQuality_def js_sub_def)

lemma estimatedQuality_int:
  "\<exists>k::int. estimatedQuality n = Num (of_int k) \<and> 10 \<le> k \<and> k \<le> 95"
proof (cases "n = 0")
  case True
  have "estimatedQuality 0 = Num (of_int 95)" by (simp add: estimatedQuality_0)
  with True show ?thesis by (intro exI[of _ 95]) simp
next
  case False
  then have "estimatedQuality n = Num (of_int (spec_seed (of_nat TARGET_SIZE / of_nat n)))"
    by (simp add: estimatedQuality_def sizeRatio_pos seed_eq)
  then show ?thesis using spec_seed_range by blast
qed

section \<open>Facts about the refinement loop\<close>

text \<open>
  The loop either stops at once, or makes one attempt that fails, or makes one attempt
  that succeeds and goes on from its buffer. The induction rule below follows these
  three cases; the attempt counter bounds the depth.
\<close>

lemma refine_stop:
  "\<not> loopGuard buf q a \<Longrightarrow> refine e w g fp buf q a = ([], Inr (buf, q, a))"
  unfolding loopGuard_def by (subst refine.simps) auto

lemma refine_fail:
  "loopGuard buf q a \<Longrightarrow> toBuffer e w (refineCall g fp (js_sub q (Num 10))) = Inl err \<Longrightarrow>
   refine e w g fp buf q a = ([(js_sub q (Num 10), refineCall g fp (js_sub q (Num 10)))], Inl err)"
  unfolding refineCall_def loopGuard_def by (subst refine.simps) (simp add: Let_def)

lemma refine_step:
  "loopGuard buf q a \<Longrightarrow> toBuffer e w (refineCall g fp (js_sub q (Num 10))) = Inr buf' \<Longrightarrow>
   refine e w g fp buf q a =
     ((js_sub q (Num 10), refineCall g fp (js_sub q (Num 10))) #
        fst (refine e w g fp buf' (js_sub q (Num 10)) (a + 1)),
      snd (refine e w g fp buf' (js_sub q (Num 10)) (a + 1)))"
  unfolding refineCall_def loopGuard_def
  by (subst refine.simps) (simp add: Let_def split: prod.splits)

lemma refine_cases [case_names stop fail step]:
  assumes stop: "\<And>buf q a. \<not> loopGuard buf q a \<Longrightarrow> P buf q a"
    and fail: "\<And>buf q a err. loopGuard buf q a \<Longrightarrow>
        toBuffer e w (refineCall g fp (js_sub q (Num 10))) = Inl err \<Longrightarrow> P buf q a"
    and step: "\<And>buf q a buf'. loopGuard buf q a \<Longrightarrow>
        toBuffer e w (refineCall g fp (js_sub q (Num 10))) = Inr buf' \<Longrightarrow>
        P buf' (js_sub q (Num 10)) (a + 1) \<Longrightarrow> P buf q a"
  shows "P buf q a"
proof (induction "5 - a" arbitrary: buf q a)
  case 0
  then have "\<not> loopGuard buf q a" by (simp add: loopGuard_def)
  then show ?case by (rule stop)
next
  case (Suc n)
  show ?case
  proof (cases "loopGuard buf q a")
    case False
    then show ?thesis by (rule stop)
  next
    case True
    show ?thesis
    proof (cases "toBuffer e w (refineCall g fp (js_sub q (Num 10)))")
      case (Inl err)
      with True show ?thesis by (rule fail)
    next
      case (Inr buf')
      from Suc.hyps(2) have "n = 5 - (a + 1)" by simp
      then have "P buf' (js_sub q (Num 10)) (a + 1)" by (rule Suc.hyps(1))
      with True Inr show ?thesis by (rule step)
    qed
  qed
qed

lemma refine_length: "length (fst (refine e w g fp buf q a)) \<le> 5 - a"
proof (induction buf q a rule: refine_cases[where e = e and w = w and g = g and fp = fp])
  case (stop buf q a)
  then show ?case by (simp add: refine_stop)
next
  case (fail buf q a err)
  then show ?case by (auto simp add: refine_fail loopGuard_def)
next
  case (step buf q a buf')
  then show ?case by (auto simp add: refine_step loopGuard_def)
qed

lemma refine_calls:
  "(q', c) \<in> set (fst (refine e w g fp buf q a)) \<Longrightarrow> c = refineCall g fp q'"
proof (induction buf q a rule: refine_cases[where e = e and w = w and g = g and fp = fp])
  case (stop buf q a)
  then show ?case by (simp add: refine_stop)
next
  case (fail buf q a err)
  then show ?case by (simp add: refine_fail)
next
  case (step buf q a buf')
  then show ?case by (auto simp add: refine_step)
qed

lemma js_sub_int: "js_sub (Num (of_int k)) (Num 10) = Num (of_int (k - 10))"
  by (simp add: js_sub_def)

lemma js_gt_int: "js_gt (Num (of_int k)) (Num 10) = (10 < k)"
proof -
  have "((10::rat) < of_int k) = (10 < k)" 
    using of_int_less_iff[of 10 k, where 'a = rat] by simp
  then show ?thesis by simp
qed

lemma refine_quality:
  "q = Num (of_int k) \<Longrightarrow> i < length (fst (refine e w g fp buf q a)) \<Longrightarrow>
   fst (fst (refine e w g fp buf q a) ! i) = Num (of_int (k - 10 * (int i + 1)))"
proof (induction buf q a arbitrary: k i rule: refine_cases[where e = e and w = w and g = g and fp = fp])
  case (stop buf q a)
  then show ?case by (simp add: refine_stop)
next
  case (fail buf q a err)
  then show ?case by (simp add: refine_fail js_sub_int)
next
  case (step buf q a buf')
  show ?case
  proof (cases i)
    case 0
    with step show ?thesis by (simp add: refine_step js_sub_int)
  next
    case (Suc j)
    from step.prems(1) have q': "js_sub q (Num 10) = Num (of_int (k - 10))"
      by (simp add: js_sub_int)
    from step.prems(2) step.hyps Suc
    have j: "j < length (fst (refine e w g fp buf' (js_sub q (Num 10)) (a + 1)))"
      by (simp add: refine_step)
    from step.IH[OF q' j] step.hyps Suc show ?thesis
      by (simp add: refine_step algebra_simps)
  qed
qed

lemma refine_nonempty:
  "fst (refine e w g fp buf q a) \<noteq> [] \<Longrightarrow> loopGuard buf q a"
  by (cases "loopGuard buf q a") (simp_all add: refine_stop)

lemma refine_guarded:
  "Suc i < length (fst (refine e w g fp buf q a)) \<Longrightarrow>
   \<exists>b. toBuffer e w (snd (fst (refine e w g fp buf q a) ! i)) = Inr b \<and>
       loopGuard b (fst (fst (refine e w g fp buf q a) ! i)) (a + i + 1)"
proof (induction buf q a arbitrary: i rule: refine_cases[where e = e and w = w and g = g and fp = fp])
  case (stop buf q a)
  then show ?case by (simp add: refine_stop)
next
  case (fail buf q a err)
  then show ?case by (simp add: refine_fail)
next
  case (step buf q a buf')
  let ?rest = "fst (refine e w g fp buf' (js_sub q (Num 10)) (a + 1))"
  show ?case
  proof (cases i)
    case 0
    with step.prems step.hyps have "?rest \<noteq> []" by (auto simp add: refine_step)
    then have "loopGuard buf' (js_sub q (Num 10)) (a + 1)" by (rule refine_nonempty)
    with 0 step.hyps show ?thesis by (simp add: refine_step)
  next
    case (Suc j)
    with step.prems step.hyps have "Suc j < length ?rest" by (simp add: refine_step)
    from step.IH[OF this] Suc step.hyps show ?thesis by (simp add: refine_step)
  qed
qed

lemma refine_result:
  "refine e w g fp buf q a = (tr, r) \<Longrightarrow>
   (case r of
      Inl err \<Rightarrow> tr \<noteq> [] \<and> toBuffer e w (snd (last tr)) = Inl err
    | Inr (b, q', a') \<Rightarrow> \<not> loopGuard b q' a' \<and> a' = a + length tr \<and>
        (if tr = [] then b = buf \<and> q' = q
         else toBuffer e w (snd (last tr)) = Inr b \<and> q' = fst (last tr)))"
proof (induction buf q a arbitrary: tr r rule: refine_cases[where e = e and w = w and g = g and fp = fp])
  case (stop buf q a)
  then show ?case by (auto simp add: refine_stop)
next
  case (fail buf q a err)
  then show ?case by (auto simp add: refine_fail)
next
  case (step buf q a buf')
  obtain tr' r' where rest: "refine e w g fp buf' (js_sub q (Num 10)) (a + 1) = (tr', r')"
    by (cases "refine e w g fp buf' (js_sub q (Num 10)) (a + 1)")
  from step.prems step.hyps rest
  have tr: "tr = (js_sub q (Num 10), refineCall g fp (js_sub q (Num 10))) # tr'" and r: "r = r'"
    by (simp_all add: refine_step)
  from step.IH[OF rest] step.hyps(2) show ?case
    unfolding tr r by (auto split: sum.splits prod.splits if_splits)
qed

lemma refine_failure:
  "(q', c) \<in> set (fst (refine e w g fp buf q a)) \<Longrightarrow> toBuffer e w c = Inl err \<Longrightarrow>
   isl (snd (refine e w g fp buf q a))"
proof (induction buf q a rule: refine_cases[where e = e and w = w and g = g and fp = fp])
  case (stop buf q a)
  then show ?case by (simp add: refine_stop)
next
  case (fail buf q a err)
  then show ?case by (simp add: refine_fail)
next
  case (step buf q a buf')
  then show ?case by (auto simp add: refine_step)
qed

section \<open>Facts about one search\<close>

text \<open>
  The two copies of the resize decision agree, so the first attempt and the refinement
  attempts build the same call; the log of a search is its first attempt followed by the
  loop's attempts.
\<close>

lemma resize_same: "refineResize g s = fst (initialResize g s)"
  by (simp add: refineResize_def initialResize_def Let_def)

lemma firstCall_refineCall: "firstCall g fp q = refineCall g fp q"
  by (simp add: firstCall_def refineCall_def resize_same)

lemma attempts_log_eq:
  "attempts_log (compressWithRatio e g w fp n) =
     (estimatedQuality n, firstCall g fp (estimatedQuality n)) # laterAttempts e g w fp n"
  by (simp add: compressWithRatio_def Let_def firstCall_def laterAttempts_def
      split: prod.splits sum.splits)

lemma caught_first:
  "toBuffer e w (firstCall g fp (estimatedQuality n)) = Inl err \<Longrightarrow>
   returned (compressWithRatio e g w fp n) = n \<and> world_after (compressWithRatio e g w fp n) = w"
  by (cases "initialResize g (sharp (Path fp))")
     (simp add: compressWithRatio_def Let_def firstCall_def)

lemma caught_later:
  "toBuffer e w (firstCall g fp (estimatedQuality n)) = Inr buf0 \<Longrightarrow>
   isl (snd (refine e w g fp buf0 (estimatedQuality n) 0)) \<Longrightarrow>
   returned (compressWithRatio e g w fp n) = n \<and> world_after (compressWithRatio e g w fp n) = w"
  by (cases "initialResize g (sharp (Path fp))";
      cases "refine e w g fp buf0 (estimatedQuality n) 0")
     (auto simp add: compressWithRatio_def Let_def firstCall_def isl_def)

lemma caught_any:
  assumes "(q, c) \<in> set (attempts_log (compressWithRatio e g w fp n))"
    and "toBuffer e w c = Inl err"
  shows "returned (compressWithRatio e g w fp n) = n \<and> world_after (compressWithRatio e g w fp n) = w"
proof (cases "toBuffer e w (firstCall g fp (estimatedQuality n))")
  case (Inl err')
  then show ?thesis by (rule caught_first)
next
  case (Inr buf0)
  with assms have "(q, c) \<in> set (fst (refine e w g fp buf0 (estimatedQuality n) 0))"
    by (auto simp add: attempts_log_eq laterAttempts_def)
  then have "isl (snd (refine e w g fp buf0 (estimatedQuality n) 0))"
    using assms(2) by (rule refine_failure)
  with Inr show ?thesis by (rule caught_later)
qed

lemma later_length: "length (laterAttempts e g w fp n) \<le> 5"
  using refine_length[of e w g fp _ "estimatedQuality n" 0]
  by (simp add: laterAttempts_def split: sum.splits)

lemma later_quality:
  "estimatedQuality n = Num (of_int k) \<Longrightarrow> i < length (laterAttempts e g w fp n) \<Longrightarrow>
   fst (laterAttempts e g w fp n ! i) = Num (of_int (k - 10 * (int i + 1)))"
  by (auto simp add: laterAttempts_def refine_quality split: sum.splits)

lemma later_calls:
  "(q, c) \<in> set (laterAttempts e g w fp n) \<Longrightarrow> c = refineCall g fp q"
  by (auto simp add: laterAttempts_def split: sum.splits dest: refine_calls)

lemma later_first_guard:
  "laterAttempts e g w fp n \<noteq> [] \<Longrightarrow>
   \<exists>b. toBuffer e w (firstCall g fp (estimatedQuality n)) = Inr b \<and>
       loopGuard b (estimatedQuality n) 0"
  by (auto simp add: laterAttempts_def split: sum.splits dest: refine_nonempty)

lemma later_guard:
  "Suc i < length (laterAttempts e g w fp n) \<Longrightarrow>
   \<exists>b. toBuffer e w (snd (laterAttempts e g w fp n ! i)) = Inr b \<and>
       loopGuard b (fst (laterAttempts e g w fp n ! i)) (i + 1)"
  using refine_guarded[of i e w g fp _ "estimatedQuality n" 0]
  by (auto simp add: laterAttempts_def split: sum.splits)

lemma log_guard:
  assumes "Suc i < length (attempts_log (compressWithRatio e g w fp n))"
  shows "\<exists>b. toBuffer e w (snd (attempts_log (compressWithRatio e g w fp n) ! i)) = Inr b \<and>
       loopGuard b (fst (attempts_log (compressWithRatio e g w fp n) ! i)) i"
proof (cases i)
  case 0
  with assms have "laterAttempts e g w fp n \<noteq> []" by (auto simp add: attempts_log_eq)
  from later_first_guard[OF this] 0 show ?thesis by (simp add: attempts_log_eq)
next
  case (Suc j)
  with assms have "Suc j < length (laterAttempts e g w fp n)" by (simp add: attempts_log_eq)
  from later_guard[OF this] Suc show ?thesis by (simp add: attempts_log_eq)
qed

lemma log_length:
  "1 \<le> length (attempts_log (compressWithRatio e g w fp n)) \<and>
   length (attempts_log (compressWithRatio e g w fp n)) \<le> 6"
  using later_length[of e g w fp n] by (simp add: attempts_log_eq)

lemma log_quality:
  assumes "estimatedQuality n = Num (of_int k)"
    and "i < length (attempts_log (compressWithRatio e g w fp n))"
  shows "fst (attempts_log (compressWithRatio e g w fp n) ! i) = Num (of_int (k - 10 * int i))"
proof (cases i)
  case 0
  with assms show ?thesis by (simp add: attempts_log_eq)
next
  case (Suc j)
  with assms(2) have "j < length (laterAttempts e g w fp n)" by (simp add: attempts_log_eq)
  from later_quality[OF assms(1) this] Suc show ?thesis by (simp add: attempts_log_eq)
qed

lemma log_calls:
  "(q, c) \<in> set (attempts_log (compressWithRatio e g w fp n)) \<Longrightarrow> c = refineCall g fp q"
  by (auto simp add: attempts_log_eq firstCall_refineCall dest: later_calls)

lemma log_last:
  "case toBuffer e w (snd (last (attempts_log (compressWithRatio e g w fp n)))) of
     Inl err \<Rightarrow> True
   | Inr b \<Rightarrow> \<not> loopGuard b (fst (last (attempts_log (compressWithRatio e g w fp n))))
                 (length (attempts_log (compressWithRatio e g w fp n)) - 1)"
proof (cases "toBuffer e w (firstCall g fp (estimatedQuality n))")
  case (Inl err)
  then show ?thesis by (simp add: attempts_log_eq laterAttempts_def)
next
  case (Inr buf0)
  obtain tr r where rf: "refine e w g fp buf0 (estimatedQuality n) 0 = (tr, r)"
    by (cases "refine e w g fp buf0 (estimatedQuality n) 0")
  with Inr have L: "attempts_log (compressWithRatio e g w fp n) =
      (estimatedQuality n, firstCall g fp (estimatedQuality n)) # tr"
    by (simp add: attempts_log_eq laterAttempts_def)
  from refine_result[OF rf] Inr show ?thesis
    unfolding L by (cases r) (auto split: if_splits)
qed

section \<open>Facts about the batch driver\<close>

text \<open>
  One turn of the \<^verbatim>\<open>for\<close> loop takes one of four ways: the size reads as 0, the file is
  left alone by the skip rule, the search returns less than the original size, or it
  does not. The case rule below splits a proof along them.
\<close>

lemma step_unreadable:
  "getFileSize e (world st) fname = 0 \<Longrightarrow>
   processFiles e g (fname # rest) st =
     processFiles e g rest (st\<lparr>console := console st @ [SkippingUnreadable fname]\<rparr>)"
  by simp

lemma step_skipped:
  "getFileSize e (world st) fname = n \<Longrightarrow> 0 < n \<Longrightarrow> skipRule g fname n \<Longrightarrow>
   processFiles e g (fname # rest) st =
     processFiles e g rest
       (st\<lparr>skippedCount := skippedCount st + 1,
           console := console st @ [SkippingUnderTarget fname n]\<rparr>)"
  by (simp add: skipRule_def)

lemma step_compressed:
  "getFileSize e (world st) fname = n \<Longrightarrow> 0 < n \<Longrightarrow> \<not> skipRule g fname n \<Longrightarrow>
   returned (compressWithRatio e g (world st) fname n) < n \<Longrightarrow>
   processFiles e g (fname # rest) st =
     processFiles e g rest
       (st\<lparr>world := world_after (compressWithRatio e g (world st) fname n),
           processedCount := processedCount st + 1,
           console := console st @
             [Processing fname n, Compressed fname (returned (compressWithRatio e g (world st) fname n))]\<rparr>)"
  by (auto simp add: skipRule_def Let_def)

lemma step_failed:
  "getFileSize e (world st) fname = n \<Longrightarrow> 0 < n \<Longrightarrow> \<not> skipRule g fname n \<Longrightarrow>
   \<not> returned (compressWithRatio e g (world st) fname n) < n \<Longrightarrow>
   processFiles e g (fname # rest) st =
     processFiles e g rest
       (st\<lparr>world := world_after (compressWithRatio e g (world st) fname n),
           console := console st @ [Processing fname n, FailedToCompress fname]\<rparr>)"
  by (auto simp add: skipRule_def Let_def)

lemma step_cases [case_names unreadable skipped compressed failed]:
  assumes "\<And>st'. getFileSize e (world st) fname = 0 \<Longrightarrow>
      st' = st\<lparr>console := console st @ [SkippingUnreadable fname]\<rparr> \<Longrightarrow>
      processFiles e g (fname # rest) st = processFiles e g rest st' \<Longrightarrow> P"
    and "\<And>st' n. getFileSize e (world st) fname = n \<Longrightarrow> 0 < n \<Longrightarrow> skipRule g fname n \<Longrightarrow>
      st' = st\<lparr>skippedCount := skippedCount st + 1,
           console := console st @ [SkippingUnderTarget fname n]\<rparr> \<Longrightarrow>
      processFiles e g (fname # rest) st = processFiles e g rest st' \<Longrightarrow> P"
    and "\<And>st' n. getFileSize e (world st) fname = n \<Longrightarrow> 0 < n \<Longrightarrow> \<not> skipRule g fname n \<Longrightarrow>
      returned (compressWithRatio e g (world st) fname n) < n \<Longrightarrow>
      st' = st\<lparr>world := world_after (compressWithRatio e g (world st) fname n),
           processedCount := processedCount st + 1,
           console := console st @
             [Processing fname n, Compressed fname (returned (compressWithRatio e g (world st) fname n))]\<rparr> \<Longrightarrow>
      processFiles e g (fname # rest) st = processFiles e g rest st' \<Longrightarrow> P"
    and "\<And>st' n. getFileSize e (world st) fname = n \<Longrightarrow> 0 < n \<Longrightarrow> \<not> skipRule g fname n \<Longrightarrow>
      \<not> returned (compressWithRatio e g (world st) fname n) < n \<Longrightarrow>
      st' = st\<lparr>world := world_after (compressWithRatio e g (world st) fname n),
           console := console st @ [Processing fname n, FailedToCompress fname]\<rparr> \<Longrightarrow>
      processFiles e g (fname # rest) st = processFiles e g rest st' \<Longrightarrow> P"
  shows P
proof (cases "getFileSize e (world st) fname = 0")
  case True
  from assms(1)[OF True refl step_unreadable[OF True]] show ?thesis .
next
  case False
  then have pos: "0 < getFileSize e (world st) fname" by simp
  show ?thesis
  proof (cases "skipRule g fname (getFileSize e (world st) fname)")
    case True
    from assms(2)[OF refl pos True refl step_skipped[OF refl pos True]] show ?thesis .
  next
    case nskip: False
    show ?thesis
    proof (cases "returned (compressWithRatio e g (world st) fname (getFileSize e (world st) fname))
        < getFileSize e (world st) fname")
      case True
      from assms(3)[OF refl pos nskip True refl step_compressed[OF refl pos nskip True]]
      show ?thesis .
    next
      case False
      from assms(4)[OF refl pos nskip False refl step_failed[OF refl pos nskip False]]
      show ?thesis .
    qed
  qed
qed

lemma console_grows:
  "\<exists>evs. console (processFiles e g rest st) = console st @ evs"
proof (induction rest arbitrary: st)
  case Nil
  then show ?case by simp
next
  case (Cons fname rest)
  show ?case
  proof (cases rule: step_cases[of e st fname g rest])
    case (unreadable st')
    with Cons[of st'] show ?thesis by auto
  next
    case (skipped st' n)
    with Cons[of st'] show ?thesis by auto
  next
    case (compressed st' n)
    with Cons[of st'] show ?thesis by auto
  next
    case (failed st' n)
    with Cons[of st'] show ?thesis by auto
  qed
qed

lemma every_file_reported:
  "f \<in> set rest \<Longrightarrow> \<exists>ev \<in> set (console (processFiles e g rest st)). event_file ev = Some f"
proof (induction rest arbitrary: st)
  case Nil
  then show ?case by simp
next
  case (Cons fname rest)
  have here: "\<exists>ev \<in> set (console (processFiles e g rest st')). event_file ev = Some f"
    if "ev \<in> set (console st')" "event_file ev = Some f" for st' ev
    using console_grows[of e g rest st'] that by auto
  have later: "\<exists>ev \<in> set (console (processFiles e g rest st')). event_file ev = Some f"
    if "f \<noteq> fname" for st'
    using Cons.IH[of st'] Cons.prems that by simp
  show ?case
  proof (cases rule: step_cases[of e st fname g rest])
    case (unreadable st')
    show ?thesis
    proof (cases "f = fname")
      case True
      with unreadable here[of "SkippingUnreadable fname" st'] show ?thesis by simp
    next
      case False
      with unreadable later[of st'] show ?thesis by simp
    qed
  next
    case (skipped st' n)
    show ?thesis
    proof (cases "f = fname")
      case True
      with skipped here[of "SkippingUnderTarget fname n" st'] show ?thesis by simp
    next
      case False
      with skipped later[of st'] show ?thesis by simp
    qed
  next
    case (compressed st' n)
    show ?thesis
    proof (cases "f = fname")
      case True
      with compressed here[of "Processing fname n" st'] show ?thesis by simp
    next
      case False
      with compressed later[of st'] show ?thesis by simp
    qed
  next
    case (failed st' n)
    show ?thesis
    proof (cases "f = fname")
      case True
      with failed here[of "Processing fname n" st'] show ?thesis by simp
    next
      case False
      with failed later[of st'] show ?thesis by simp
    qed
  qed
qed

lemma processing_positive:
  "Processing f n \<in> set (console (processFiles e g rest st)) \<Longrightarrow>
   Processing f n \<in> set (console st) \<or> 0 < n"
proof (induction rest arbitrary: st)
  case Nil
  then show ?case by simp
next
  case (Cons fname rest)
  show ?case
  proof (cases rule: step_cases[of e st fname g rest])
    case (unreadable st')
    with Cons.IH[of st'] Cons.prems show ?thesis by auto
  next
    case (skipped st' m)
    with Cons.IH[of st'] Cons.prems show ?thesis by auto
  next
    case (compressed st' m)
    with Cons.IH[of st'] Cons.prems show ?thesis by auto
  next
    case (failed st' m)
    with Cons.IH[of st'] Cons.prems show ?thesis by auto
  qed
qed

lemma apply_arg_MAX: "MAX_DIMENSION (apply_arg pI g a) = MAX_DIMENSION g"
  by (simp add: apply_arg_def)

lemma foldl_MAX: "MAX_DIMENSION (foldl (apply_arg pI) g args) = MAX_DIMENSION g"
  by (induction args arbitrary: g) (simp_all add: apply_arg_MAX)

lemma needsResize_parse_args: "needsResize (parse_args pI args)"
  by (simp add: needsResize_def parse_args_def Let_def foldl_MAX initial_globals_def)

lemma foldl_targetFormat:
  "\<forall>a \<in> set args. \<not> startsWith a ''t='' \<Longrightarrow>
   targetFormat (foldl (apply_arg pI) g args) = targetFormat g"
  by (induction args arbitrary: g) (simp_all add: apply_arg_def)

lemma targetFormat_parse_args:
  "\<forall>a \<in> set args. \<not> startsWith a ''t='' \<Longrightarrow> targetFormat (parse_args pI args) = None"
  by (simp add: parse_args_def Let_def foldl_targetFormat initial_globals_def)

lemma parse_args_nil: "parse_args pI [] = initial_globals"
  by (simp add: parse_args_def initial_globals_def)

lemma step_searched:
  assumes "getFileSize e (world st) fname = n" and "0 < n" and "\<not> skipRule g fname n"
  shows "processFiles e g (fname # rest) st =
     processFiles e g rest
       (let r = compressWithRatio e g (world st) fname n
        in if returned r < n then
             st\<lparr>world := world_after r, processedCount := processedCount st + 1,
                console := console st @ [Processing fname n, Compressed fname (returned r)]\<rparr>
           else
             st\<lparr>world := world_after r,
                console := console st @ [Processing fname n, FailedToCompress fname]\<rparr>)"
proof (cases "returned (compressWithRatio e g (world st) fname n) < n")
  case True
  from step_compressed[OF assms True, of rest] True show ?thesis by (simp only: Let_def if_True)
next
  case False
  from step_failed[OF assms False, of rest] False show ?thesis by (simp only: Let_def if_False)
qed

lemma no_policy_skip:
  "needsResize g \<Longrightarrow> SkippingUnderTarget f m \<in> set (console (processFiles e g rest st)) \<Longrightarrow>
   SkippingUnderTarget f m \<in> set (console st)"
proof (induction rest arbitrary: st)
  case Nil
  then show ?case by simp
next
  case (Cons fname rest)
  show ?case
  proof (cases rule: step_cases[of e st fname g rest])
    case (unreadable st')
    with Cons.IH[of st'] Cons.prems show ?thesis by auto
  next
    case (skipped st' n)
    with Cons.prems(1) show ?thesis by (simp add: skipRule_def)
  next
    case (compressed st' n)
    with Cons.IH[of st'] Cons.prems show ?thesis by auto
  next
    case (failed st' n)
    with Cons.IH[of st'] Cons.prems show ?thesis by auto
  qed
qed

lemma no_policy_skip_batch:
  "needsResize g \<Longrightarrow> SkippingUnderTarget f m \<notin> set (console (compressImages e g w))"
proof
  assume nr: "needsResize g"
    and s: "SkippingUnderTarget f m \<in> set (console (compressImages e g w))"
  show False
  proof (cases "readdirSync e w")
    case (Inl err)
    with s show ?thesis by (simp add: compressImages_def)
  next
    case (Inr files)
    show ?thesis
    proof (cases "filter isImageFile files = []")
      case True
      with s Inr show ?thesis by (simp add: compressImages_def)
    next
      case False
      with s Inr have "SkippingUnderTarget f m \<in> set (console (processFiles e g (filter isImageFile files)
          \<lparr>world = w, processedCount = 0, skippedCount = 0, console = []\<rparr>))"
        by (simp add: compressImages_def Let_def)
      from no_policy_skip[OF nr this] show ?thesis by simp
    qed
  qed
qed

section \<open>The definitions at work in the small world\<close>

lemma estimatedQuality_471040: "estimatedQuality 471040 = Num 45"
  by (simp add: estimatedQuality_def sizeRatio_def TARGET_SIZE_def seed_eq spec_seed_def
      spec_formula_def round_def floor_eq_iff)

lemmas sim_simps =
  compressWithRatio_def initial_globals_def sim_dir_def sim_env_def sim_toBuffer_def
  getImageDimensions_def initialResize_def refineResize_def sharp_def resize_def
  outputFormat_def encoderFor_def formatOptionsFor_def refine.simps TARGET_SIZE_def
  js_sub_def newFilePath_def Let_def firstCall_def refineCall_def

lemma sim_big_log:
  "attempts_log (compressWithRatio sim_env initial_globals sim_dir ''big.png'' 471040) =
     [(Num 45, firstCall initial_globals ''big.png'' (Num 45)),
      (Num 35, refineCall initial_globals ''big.png'' (Num 35)),
      (Num 25, refineCall initial_globals ''big.png'' (Num 25)),
      (Num 15, refineCall initial_globals ''big.png'' (Num 15)),
      (Num 5, refineCall initial_globals ''big.png'' (Num 5))]"
  by (simp add: estimatedQuality_471040 sim_simps)

lemma js_ge_int: "js_ge (Num (of_int a)) (Num (of_int b)) = (b \<le> a)"
  by simp

lemma compressionLevel_int:
  "compressionLevel (Num (of_int k)) = Num (of_int ((100 - k) div 10))"
proof -
  have "\<lfloor>(100 - rat_of_int k) / 10\<rfloor> = (100 - k) div 10"
    using floor_divide_of_int_eq[of "100 - k" 10, where 'a = rat] by simp
  then show ?thesis by (simp add: compressionLevel_def js_sub_def)
qed

lemma encoderFor_Png: "(encoderFor fmt = Png) = (fmt = ''png'')"
  by (simp add: encoderFor_def)

lemma level_range: "1 \<le> k \<Longrightarrow> k \<le> 95 \<Longrightarrow> 0 \<le> (100 - k) div 10 \<and> (100 - k) div 10 \<le> (9::int)"
  by presburger

lemma estimatedQuality_50000: "estimatedQuality 50000 = Num 95"
  by (simp add: estimatedQuality_def sizeRatio_def TARGET_SIZE_def seed_eq spec_seed_def
      spec_formula_def round_def floor_eq_iff)

lemma estimatedQuality_300000: "estimatedQuality 300000 = Num 54"
  by (simp add: estimatedQuality_def sizeRatio_def TARGET_SIZE_def seed_eq spec_seed_def
      spec_formula_def round_def floor_eq_iff)

lemma estimatedQuality_500000: "estimatedQuality 500000 = Num 44"
  by (simp add: estimatedQuality_def sizeRatio_def TARGET_SIZE_def seed_eq spec_seed_def
      spec_formula_def round_def floor_eq_iff)

lemmas batch_simps =
  compressImages_def getFileSize_def needsFormatConversion_def needsResize_def isImageFile_def
  extname_def toLowerCase_def lower_char_def
  estimatedQuality_471040 estimatedQuality_50000 estimatedQuality_300000 estimatedQuality_500000

lemma sim_batch_console:
  "console (compressImages sim_env initial_globals sim_dir) =
     [Processing ''small.png'' 50000, Compressed ''small.png'' 25000,
      Processing ''big.png'' 471040, Compressed ''big.png'' 235520,
      Processing ''bad.webp'' 300000, FailedToCompress ''bad.webp'',
      SkippingUnreadable ''empty.tif'',
      Processing ''photo.tiff'' 500000, Compressed ''photo.tiff'' 50000]"
  by (simp add: batch_simps sim_simps)

lemma estimatedQuality_25000: "estimatedQuality 25000 = Num 95"
  by (simp add: estimatedQuality_def sizeRatio_def TARGET_SIZE_def seed_eq spec_seed_def
      spec_formula_def round_def floor_eq_iff)

lemma estimatedQuality_235520: "estimatedQuality 235520 = Num 63"
  by (simp add: estimatedQuality_def sizeRatio_def TARGET_SIZE_def seed_eq spec_seed_def
      spec_formula_def round_def floor_eq_iff)

lemma sim_batch_world:
  "world (compressImages sim_env initial_globals sim_dir) =
     [(''photo.tiff'', 50000, Plain), (''big.png'', 235520, Plain), (''small.png'', 25000, Plain),
      (''bad.webp'', 300000, Corrupt), (''notes.txt'', 10, Plain), (''empty.tif'', 0, Plain)]"
  by (simp add: batch_simps sim_simps)

lemma sim_second_console:
  "console (compressImages sim_env initial_globals
      [(''photo.tiff'', 50000, Plain), (''big.png'', 235520, Plain), (''small.png'', 25000, Plain),
       (''bad.webp'', 300000, Corrupt), (''notes.txt'', 10, Plain), (''empty.tif'', 0, Plain)]) =
     [Processing ''photo.tiff'' 50000, Compressed ''photo.tiff'' 25000,
      Processing ''big.png'' 235520, Compressed ''big.png'' 23552,
      Processing ''small.png'' 25000, Compressed ''small.png'' 12500,
      Processing ''bad.webp'' 300000, FailedToCompress ''bad.webp'',
      SkippingUnreadable ''empty.tif'']"
  by (simp add: batch_simps estimatedQuality_25000 estimatedQuality_235520 sim_simps)

lemma sim_small_size: "getFileSize sim_env (world sim_start) ''small.png'' = 50000"
  by (simp add: getFileSize_def sim_env_def sim_start_def sim_dir_def)

lemma sim_small_search:
  "returned (compressWithRatio sim_env initial_globals (world sim_start) ''small.png'' 50000) = 25000"
  by (simp add: sim_start_def estimatedQuality_50000 sim_simps)

section \<open>The claims\<close>

text \<open>
  C1 (amended). For a file whose size reads as \<open>n > 0\<close>, at any point of the batch: when
  \<open>n \<le> TARGET_SIZE\<close>, no format conversion is needed and \<^verbatim>\<open>needsResize\<close> is false, the
  driver counts the file as skipped, runs no search and goes on with the remaining files
  in the same world; otherwise it runs \<^verbatim>\<open>compressWithRatio\<close> on the file with the size
  \<open>n\<close> and goes on with the remaining files in the world the search left, having counted
  the file as processed if the search returned less than \<open>n\<close>. \<^verbatim>\<open>needsResize\<close> also
  counts the default resize to \<^verbatim>\<open>MAX_DIMENSION\<close>, and after the start-up code it is true
  for every command line; so under the globals of any command line every such file is
  handed to the search, whatever its size, and no file of the batch is skipped by this
  rule.
\<close>

theorem C1_skip_rule:
  assumes "getFileSize e (world st) fname = n" and "0 < n"
  shows "(n \<le> TARGET_SIZE \<and> \<not> needsFormatConversion g fname \<and> \<not> needsResize g \<longrightarrow>
        processFiles e g (fname # rest) st =
          processFiles e g rest
            (st\<lparr>skippedCount := skippedCount st + 1,
                console := console st @ [SkippingUnderTarget fname n]\<rparr>)) \<and>
     (\<not> (n \<le> TARGET_SIZE \<and> \<not> needsFormatConversion g fname \<and> \<not> needsResize g) \<longrightarrow>
        processFiles e g (fname # rest) st =
          processFiles e g rest
            (let r = compressWithRatio e g (world st) fname n
             in if returned r < n then
                  st\<lparr>world := world_after r, processedCount := processedCount st + 1,
                     console := console st @ [Processing fname n, Compressed fname (returned r)]\<rparr>
                else
                  st\<lparr>world := world_after r,
                     console := console st @ [Processing fname n, FailedToCompress fname]\<rparr>)) \<and>
     needsResize (parse_args parseInt args) \<and>
     (g = parse_args parseInt args \<longrightarrow>
        processFiles e g (fname # rest) st =
          processFiles e g rest
            (let r = compressWithRatio e g (world st) fname n
             in if returned r < n then
                  st\<lparr>world := world_after r, processedCount := processedCount st + 1,
                     console := console st @ [Processing fname n, Compressed fname (returned r)]\<rparr>
                else
                  st\<lparr>world := world_after r,
                     console := console st @ [Processing fname n, FailedToCompress fname]\<rparr>) \<and>
        SkippingUnderTarget f m \<notin> set (console (compressImages e g w)))"
proof (intro conjI impI)
  assume "n \<le> TARGET_SIZE \<and> \<not> needsFormatConversion g fname \<and> \<not> needsResize g"
  then have "skipRule g fname n" by (simp add: skipRule_def)
  from step_skipped[OF assms this]
  show "processFiles e g (fname # rest) st =
          processFiles e g rest
            (st\<lparr>skippedCount := skippedCount st + 1,
                console := console st @ [SkippingUnderTarget fname n]\<rparr>)" .
next
  assume "\<not> (n \<le> TARGET_SIZE \<and> \<not> needsFormatConversion g fname \<and> \<not> needsResize g)"
  then have ns: "\<not> skipRule g fname n" by (simp add: skipRule_def)
  from step_searched[OF assms ns]
  show "processFiles e g (fname # rest) st =
          processFiles e g rest
            (let r = compressWithRatio e g (world st) fname n
             in if returned r < n then
                  st\<lparr>world := world_after r, processedCount := processedCount st + 1,
                     console := console st @ [Processing fname n, Compressed fname (returned r)]\<rparr>
                else
                  st\<lparr>world := world_after r,
                     console := console st @ [Processing fname n, FailedToCompress fname]\<rparr>)" .
next
  show "needsResize (parse_args parseInt args)" by (rule needsResize_parse_args)
next
  assume g: "g = parse_args parseInt args"
  then have ns: "\<not> skipRule g fname n" by (simp add: skipRule_def needsResize_parse_args)
  from step_searched[OF assms ns]
  show "processFiles e g (fname # rest) st =
          processFiles e g rest
            (let r = compressWithRatio e g (world st) fname n
             in if returned r < n then
                  st\<lparr>world := world_after r, processedCount := processedCount st + 1,
                     console := console st @ [Processing fname n, Compressed fname (returned r)]\<rparr>
                else
                  st\<lparr>world := world_after r,
                     console := console st @ [Processing fname n, FailedToCompress fname]\<rparr>)" .
next
  assume g: "g = parse_args parseInt args"
  then have "needsResize g" by (simp add: needsResize_parse_args)
  then show "SkippingUnderTarget f m \<notin> set (console (compressImages e g w))"
    by (rule no_policy_skip_batch)
qed

theorem C1_skip_rule_witness:
  "getFileSize sim_env (world sim_start) ''small.png'' = 50000 \<and> (0::nat) < 50000 \<and>
   (50000 \<le> TARGET_SIZE \<and> \<not> needsFormatConversion (initial_globals\<lparr>MAX_DIMENSION := 0\<rparr>) ''small.png'' \<and>
      \<not> needsResize (initial_globals\<lparr>MAX_DIMENSION := 0\<rparr>)) \<and>
   processFiles sim_env (initial_globals\<lparr>MAX_DIMENSION := 0\<rparr>) [''small.png''] sim_start =
     sim_start\<lparr>skippedCount := skippedCount sim_start + 1,
       console := console sim_start @ [SkippingUnderTarget ''small.png'' 50000]\<rparr> \<and>
   initial_globals = parse_args parseInt_decimal [] \<and>
   needsResize (parse_args parseInt_decimal []) \<and>
   console (processFiles sim_env initial_globals [''small.png''] sim_start) =
     console sim_start @ [Processing ''small.png'' 50000, Compressed ''small.png'' 25000] \<and>
   SkippingUnderTarget ''small.png'' 50000 \<notin> set (console (compressImages sim_env initial_globals sim_dir))"
proof -
  let ?g = "initial_globals\<lparr>MAX_DIMENSION := 0\<rparr>"
  have skip: "50000 \<le> TARGET_SIZE \<and> \<not> needsFormatConversion ?g ''small.png'' \<and> \<not> needsResize ?g"
    by (simp add: TARGET_SIZE_def needsFormatConversion_def needsResize_def initial_globals_def)
  have g: "initial_globals = parse_args parseInt_decimal []" by (simp add: parse_args_nil)
  have pos: "(0::nat) < 50000" by simp
  note k1 = C1_skip_rule[OF sim_small_size pos, where g = ?g and rest = "[]"
      and parseInt = parseInt_decimal and args = "[]" and f = "''small.png''" and m = 50000
      and w = sim_dir]
  note k2 = C1_skip_rule[OF sim_small_size pos, where g = initial_globals and rest = "[]"
      and parseInt = parseInt_decimal and args = "[]" and f = "''small.png''" and m = 50000
      and w = sim_dir]
  from k1 skip have "processFiles sim_env ?g [''small.png''] sim_start =
      processFiles sim_env ?g []
        (sim_start\<lparr>skippedCount := skippedCount sim_start + 1,
           console := console sim_start @ [SkippingUnderTarget ''small.png'' 50000]\<rparr>)"
    by blast
  then have a: "processFiles sim_env ?g [''small.png''] sim_start =
      sim_start\<lparr>skippedCount := skippedCount sim_start + 1,
           console := console sim_start @ [SkippingUnderTarget ''small.png'' 50000]\<rparr>"
    by (simp only: processFiles.simps(1))
  from k2 have nr: "needsResize (parse_args parseInt_decimal [])" by blast
  from k2 g have b: "processFiles sim_env initial_globals [''small.png''] sim_start =
      processFiles sim_env initial_globals []
        (let r = compressWithRatio sim_env initial_globals (world sim_start) ''small.png'' 50000
         in if returned r < 50000 then
              sim_start\<lparr>world := world_after r, processedCount := processedCount sim_start + 1,
                 console := console sim_start @
                   [Processing ''small.png'' 50000, Compressed ''small.png'' (returned r)]\<rparr>
            else
              sim_start\<lparr>world := world_after r,
                 console := console sim_start @
                   [Processing ''small.png'' 50000, FailedToCompress ''small.png'']\<rparr>)"
    and n: "SkippingUnderTarget ''small.png'' 50000
        \<notin> set (console (compressImages sim_env initial_globals sim_dir))"
    by blast+
  have c: "console (processFiles sim_env initial_globals [''small.png''] sim_start) =
     console sim_start @ [Processing ''small.png'' 50000, Compressed ''small.png'' 25000]"
    by (simp only: b processFiles.simps(1) Let_def sim_small_search) simp
  from sim_small_size pos skip a g nr c n show ?thesis by blast
qed

text \<open>
  C1 as stated fails: with no arguments at all, the 50000-byte file \<open>small.png\<close> of the
  small world is under the target and needs no conversion, yet the batch processes it,
  and a second run over the resulting directory processes it again.
\<close>

theorem C1_under_target_not_skipped:
  "parse_args parseInt_decimal [] = initial_globals \<and>
   getFileSize sim_env sim_dir ''small.png'' = 50000 \<and> 50000 \<le> TARGET_SIZE \<and>
   \<not> needsFormatConversion initial_globals ''small.png'' \<and>
   Processing ''small.png'' 50000 \<in> set (console (compressImages sim_env initial_globals sim_dir)) \<and>
   SkippingUnderTarget ''small.png'' 50000
     \<notin> set (console (compressImages sim_env initial_globals sim_dir)) \<and>
   Processing ''small.png'' 25000
     \<in> set (console (compressImages sim_env initial_globals
               (world (compressImages sim_env initial_globals sim_dir))))"
proof (intro conjI)
  show "parse_args parseInt_decimal [] = initial_globals" by (rule parse_args_nil)
  show "getFileSize sim_env sim_dir ''small.png'' = 50000"
    by (simp add: getFileSize_def sim_env_def sim_dir_def)
  show "50000 \<le> TARGET_SIZE" by (simp add: TARGET_SIZE_def)
  show "\<not> needsFormatConversion initial_globals ''small.png''"
    by (simp add: needsFormatConversion_def initial_globals_def)
  show "Processing ''small.png'' 50000 \<in> set (console (compressImages sim_env initial_globals sim_dir))"
    by (simp add: sim_batch_console)
  show "SkippingUnderTarget ''small.png'' 50000
     \<notin> set (console (compressImages sim_env initial_globals sim_dir))"
    by (simp add: sim_batch_console)
  show "Processing ''small.png'' 25000
     \<in> set (console (compressImages sim_env initial_globals
               (world (compressImages sim_env initial_globals sim_dir))))"
    by (simp add: sim_batch_world sim_second_console)
qed

text \<open>
  C2. The quality of a refinement attempt can fall below 10. In the small world the file
  \<open>big.png\<close> (471040 bytes, estimate 45, every output above the target) is encoded at
  45, 35, 25, 15 and at last at quality 5.
\<close>

theorem C2_quality_below_floor:
  "(Num 5, refineCall initial_globals ''big.png'' (Num 5))
     \<in> set (attempts_log (compressWithRatio sim_env initial_globals sim_dir ''big.png'' 471040)) \<and>
   options (refineCall initial_globals ''big.png'' (Num 5)) = Quality (Num 5) \<and>
   \<not> js_ge (Num 5) (Num 10)"
proof (intro conjI)
  show "(Num 5, refineCall initial_globals ''big.png'' (Num 5))
     \<in> set (attempts_log (compressWithRatio sim_env initial_globals sim_dir ''big.png'' 471040))"
    by (simp add: sim_big_log)
  show "options (refineCall initial_globals ''big.png'' (Num 5)) = Quality (Num 5)"
    by (simp add: refineCall_def formatOptionsFor_def outputFormat_def initial_globals_def)
  show "\<not> js_ge (Num 5) (Num 10)"
    by simp
qed

text \<open>
  C3 (amended). When no argument starts with \<open>t=\<close> (whatever \<open>w=\<close> and \<open>h=\<close> say), the
  target format stays unset, the output format is \<open>jpeg\<close>, and every attempt of every
  search runs the JPEG encoder, whatever file it reads: the format is fixed, not taken
  from the source.
\<close>

theorem C3_default_output_is_jpeg:
  assumes "\<forall>a \<in> set args. \<not> startsWith a ''t=''"
    and "g = parse_args parseInt args"
    and "(q, c) \<in> set (attempts_log (compressWithRatio e g w fname n))"
  shows "targetFormat g = None \<and> outputFormat g = ''jpeg'' \<and> encoder c = Jpeg"
proof -
  from assms(1,2) have t: "targetFormat g = None" by (simp add: targetFormat_parse_args)
  then have f: "outputFormat g = ''jpeg''" by (simp add: outputFormat_def)
  from assms(3) have "c = refineCall g fname q" by (rule log_calls)
  with f have j: "encoder c = Jpeg" by (simp add: refineCall_def encoderFor_def)
  from t f j show ?thesis by simp
qed

theorem C3_default_output_is_jpeg_witness:
  "\<not> startsWith ''w=800'' ''t='' \<and>
   (Num 45, firstCall (parse_args parseInt_decimal [''w=800'']) ''big.png'' (Num 45))
     \<in> set (attempts_log (compressWithRatio sim_env (parse_args parseInt_decimal [''w=800'']) sim_dir
               ''big.png'' 471040)) \<and>
   targetFormat (parse_args parseInt_decimal [''w=800'']) = None \<and>
   encoder (firstCall (parse_args parseInt_decimal [''w=800'']) ''big.png'' (Num 45)) = Jpeg"
proof -
  have a: "\<forall>a \<in> set [''w=800'']. \<not> startsWith a ''t=''" by (simp add: startsWith_def)
  have m: "(Num 45, firstCall (parse_args parseInt_decimal [''w=800'']) ''big.png'' (Num 45))
     \<in> set (attempts_log (compressWithRatio sim_env (parse_args parseInt_decimal [''w=800'']) sim_dir
               ''big.png'' 471040))"
    by (simp add: attempts_log_eq estimatedQuality_471040)
  from C3_default_output_is_jpeg[OF a refl m] a m show ?thesis by simp
qed

text \<open>
  C3 as stated fails: with no arguments, the files \<open>big.png\<close> and \<open>photo.tiff\<close> of the
  small world, which the driver accepts as a PNG and a TIFF image, are both encoded with
  the JPEG encoder, neither with the encoder of its own format.
\<close>

theorem C3_png_encoded_as_jpeg:
  "parse_args parseInt_decimal [] = initial_globals \<and>
   isImageFile ''big.png'' \<and> toLowerCase (extname ''big.png'') = ''.png'' \<and>
   (Num 45, firstCall initial_globals ''big.png'' (Num 45))
     \<in> set (attempts_log (compressWithRatio sim_env initial_globals sim_dir ''big.png'' 471040)) \<and>
   encoder (firstCall initial_globals ''big.png'' (Num 45)) = Jpeg \<and>
   encoder (firstCall initial_globals ''big.png'' (Num 45)) \<noteq> Png \<and>
   isImageFile ''photo.tiff'' \<and> toLowerCase (extname ''photo.tiff'') = ''.tiff'' \<and>
   (Num 44, firstCall initial_globals ''photo.tiff'' (Num 44))
     \<in> set (attempts_log (compressWithRatio sim_env initial_globals sim_dir ''photo.tiff'' 500000)) \<and>
   encoder (firstCall initial_globals ''photo.tiff'' (Num 44)) = Jpeg \<and>
   encoder (firstCall initial_globals ''photo.tiff'' (Num 44)) \<noteq> Tiff"
proof -
  have i: "isImageFile ''big.png''" "toLowerCase (extname ''big.png'') = ''.png''"
    "isImageFile ''photo.tiff''" "toLowerCase (extname ''photo.tiff'') = ''.tiff''"
    by (simp_all add: isImageFile_def extname_def toLowerCase_def lower_char_def)
  have m: "(Num 45, firstCall initial_globals ''big.png'' (Num 45))
     \<in> set (attempts_log (compressWithRatio sim_env initial_globals sim_dir ''big.png'' 471040))"
    by (simp add: sim_big_log)
  have m2: "(Num 44, firstCall initial_globals ''photo.tiff'' (Num 44))
     \<in> set (attempts_log (compressWithRatio sim_env initial_globals sim_dir ''photo.tiff'' 500000))"
    by (simp add: attempts_log_eq estimatedQuality_500000)
  have j: "encoder (firstCall initial_globals fn q) = Jpeg" for fn q
    by (simp add: firstCall_def encoderFor_def outputFormat_def initial_globals_def)
  from i m m2 j parse_args_nil[of parseInt_decimal] show ?thesis by simp
qed

text \<open>
  C4. For every finite size ratio the seed that Compression Search starts from (the
  estimate, clamped) is the piecewise-linear formula of the specification, rounded to the
  nearest integer and clamped to 10..95; for a file of \<open>n > 0\<close> bytes the ratio is
  \<open>TARGET_SIZE / n\<close>. For every ratio of at least 0.8 the seed lies in 85..95; it is 95
  at ratio 1 and 85 at ratio 0.8.
\<close>

theorem C4_quality_seed:
  "clampQuality (estimateQuality (Num ratio)) = Num (of_int (spec_seed ratio)) \<and>
   (0 < n \<longrightarrow> estimatedQuality n = Num (of_int (spec_seed (of_nat TARGET_SIZE / of_nat n)))) \<and>
   (8 / 10 \<le> ratio \<longrightarrow>
      (\<exists>k::int. clampQuality (estimateQuality (Num ratio)) = Num (of_int k) \<and> 85 \<le> k \<and> k \<le> 95)) \<and>
   clampQuality (estimateQuality (Num 1)) = Num 95 \<and>
   clampQuality (estimateQuality (Num (8 / 10))) = Num 85"
proof (intro conjI impI)
  show "clampQuality (estimateQuality (Num ratio)) = Num (of_int (spec_seed ratio))"
    by (rule seed_eq)
  show "estimatedQuality n = Num (of_int (spec_seed (of_nat TARGET_SIZE / of_nat n)))" if "0 < n"
    using that by (simp add: estimatedQuality_def sizeRatio_pos seed_eq)
  show "\<exists>k::int. clampQuality (estimateQuality (Num ratio)) = Num (of_int k) \<and> 85 \<le> k \<and> k \<le> 95"
    if "8 / 10 \<le> ratio"
    using that spec_seed_high[of ratio] spec_seed_range[of ratio] seed_eq[of ratio] by blast
  show "clampQuality (estimateQuality (Num 1)) = Num 95"
    by (simp add: seed_eq spec_seed_def spec_formula_def round_def)
  show "clampQuality (estimateQuality (Num (8 / 10))) = Num 85"
    by (simp add: seed_eq spec_seed_def spec_formula_def round_def floor_eq_iff)
qed

theorem C4_quality_seed_witness:
  "(8 / 10 :: rat) \<le> 9 / 10 \<and> (0::nat) < 128000 \<and>
   clampQuality (estimateQuality (Num (9 / 10))) = Num 90 \<and>
   estimatedQuality 128000 = Num 85"
proof -
  have r: "spec_seed (9 / 10) = 90"
    by (simp add: spec_seed_def spec_formula_def round_def floor_eq_iff)
  have n: "spec_seed (of_nat TARGET_SIZE / of_nat 128000) = 85"
    by (simp add: TARGET_SIZE_def spec_seed_def spec_formula_def round_def floor_eq_iff)
  from C4_quality_seed[of "9 / 10" 128000] r n show ?thesis by simp
qed

text \<open>
  C5. The attempts of one search, in order: the first is made at the clamped estimate
  \<open>k0\<close>, there are at most five more, and attempt \<open>i\<close> is made at \<open>k0 - 10 * i\<close>. An
  attempt is followed by another only if it returned a buffer larger than the target,
  its quality was above 10 and fewer than five refinements had been made; the last attempt
  either failed or left the loop's condition false. So the qualities never increase and
  never exceed the clamped estimate. (The loop is a total function: its recursion is
  bounded by the attempt counter.)
\<close>

theorem C5_refinement_bounded:
  assumes "L = attempts_log (compressWithRatio e g w filePath originalSize)"
  shows "\<exists>k0::int. 10 \<le> k0 \<and> k0 \<le> 95 \<and> estimatedQuality originalSize = Num (of_int k0) \<and>
     1 \<le> length L \<and> length L \<le> 6 \<and>
     (\<forall>i. i < length L \<longrightarrow> fst (L ! i) = Num (of_int (k0 - 10 * int i))) \<and>
     (\<forall>i. Suc i < length L \<longrightarrow>
        (\<exists>b. toBuffer e w (snd (L ! i)) = Inr b \<and> TARGET_SIZE < length b) \<and>
        js_gt (fst (L ! i)) (Num 10) \<and> i < 5 \<and>
        fst (L ! Suc i) = js_sub (fst (L ! i)) (Num 10)) \<and>
     (case toBuffer e w (snd (last L)) of
        Inl err \<Rightarrow> True
      | Inr b \<Rightarrow> \<not> (TARGET_SIZE < length b \<and> js_gt (fst (last L)) (Num 10) \<and> length L - 1 < 5)) \<and>
     (\<forall>i j. i \<le> j \<and> j < length L \<longrightarrow> js_ge (fst (L ! i)) (fst (L ! j))) \<and>
     (\<forall>i. i < length L \<longrightarrow> js_ge (estimatedQuality originalSize) (fst (L ! i)))"
proof -
  obtain k0 :: int where k0: "estimatedQuality originalSize = Num (of_int k0)"
    and range: "10 \<le> k0" "k0 \<le> 95"
    using estimatedQuality_int[of originalSize] by blast
  have len: "1 \<le> length L" "length L \<le> 6"
    using log_length[of e g w filePath originalSize] assms by simp_all
  have q: "fst (L ! i) = Num (of_int (k0 - 10 * int i))" if "i < length L" for i
    using log_quality[OF k0, of i e g w filePath] that assms by simp
  have guard: "(\<exists>b. toBuffer e w (snd (L ! i)) = Inr b \<and> TARGET_SIZE < length b) \<and>
        js_gt (fst (L ! i)) (Num 10) \<and> i < 5 \<and>
        fst (L ! Suc i) = js_sub (fst (L ! i)) (Num 10)" if "Suc i < length L" for i
  proof -
    from that have i: "i < length L" by simp
    have "fst (L ! Suc i) = js_sub (fst (L ! i)) (Num 10)"
      by (simp add: q[OF that] q[OF i] js_sub_def algebra_simps)
    moreover from log_guard[of i e g w filePath originalSize] that assms
    have "\<exists>b. toBuffer e w (snd (L ! i)) = Inr b \<and> loopGuard b (fst (L ! i)) i" by simp
    ultimately show ?thesis by (auto simp add: loopGuard_def)
  qed
  have stop: "case toBuffer e w (snd (last L)) of
        Inl err \<Rightarrow> True
      | Inr b \<Rightarrow> \<not> (TARGET_SIZE < length b \<and> js_gt (fst (last L)) (Num 10) \<and> length L - 1 < 5)"
    using log_last[where e = e and w = w and g = g and fp = filePath and n = originalSize] assms
    by (auto simp add: loopGuard_def split: sum.splits)
  have mono: "js_ge (fst (L ! i)) (fst (L ! j))" if "i \<le> j \<and> j < length L" for i j
  proof -
    from that have "i < length L" "j < length L" by simp_all
    then show ?thesis using that by (simp add: q)
  qed
  have top: "js_ge (estimatedQuality originalSize) (fst (L ! i))" if "i < length L" for i
    using that by (simp add: q k0)
  from k0 range len q guard stop mono top show ?thesis by blast
qed

theorem C5_refinement_bounded_witness:
  "map fst (attempts_log (compressWithRatio sim_env initial_globals sim_dir ''big.png'' 471040)) =
     [Num 45, Num 35, Num 25, Num 15, Num 5] \<and>
   (\<exists>k0::int. 10 \<le> k0 \<and> k0 \<le> 95 \<and> estimatedQuality 471040 = Num (of_int k0)) \<and>
   length (attempts_log (compressWithRatio sim_env initial_globals sim_dir ''big.png'' 471040)) \<le> 6"
proof -
  from C5_refinement_bounded[OF refl, where e = sim_env and g = initial_globals and w = sim_dir
      and filePath = "''big.png''" and originalSize = 471040]
  obtain k0 :: int where "10 \<le> k0" "k0 \<le> 95" "estimatedQuality 471040 = Num (of_int k0)"
    and "length (attempts_log (compressWithRatio sim_env initial_globals sim_dir ''big.png'' 471040)) \<le> 6"
    by blast
  then show ?thesis by (auto simp add: sim_big_log)
qed

text \<open>
  C6. Every attempt of a search, the first and each refinement, runs the same pipeline:
  it reads the file at the original path (never a buffer of an earlier attempt) and
  applies the resize computed from the same globals. The resize decision is written twice
  in the source; the two copies agree.
\<close>

theorem C6_same_resize_from_source:
  assumes "(q, c) \<in> set (attempts_log (compressWithRatio e g w filePath originalSize))"
  shows "pipeline c = fst (initialResize g (sharp (Path filePath))) \<and>
     pipeline c = pipeline (snd (hd (attempts_log (compressWithRatio e g w filePath originalSize)))) \<and>
     source (pipeline c) = Path filePath \<and>
     refineResize g (sharp (Path filePath)) = fst (initialResize g (sharp (Path filePath)))"
proof -
  from assms have "c = refineCall g filePath q" by (rule log_calls)
  then have p: "pipeline c = fst (initialResize g (sharp (Path filePath)))"
    by (simp add: refineCall_def resize_same)
  have h: "pipeline (snd (hd (attempts_log (compressWithRatio e g w filePath originalSize)))) =
      fst (initialResize g (sharp (Path filePath)))"
    by (simp add: attempts_log_eq firstCall_def)
  have s: "source (fst (initialResize g (sharp (Path filePath)))) = Path filePath"
    by (simp add: initialResize_def sharp_def resize_def Let_def)
  from p h s show ?thesis by (simp add: resize_same)
qed

theorem C6_same_resize_from_source_witness:
  "(Num 15, refineCall initial_globals ''big.png'' (Num 15))
     \<in> set (attempts_log (compressWithRatio sim_env initial_globals sim_dir ''big.png'' 471040)) \<and>
   pipeline (refineCall initial_globals ''big.png'' (Num 15)) =
     \<lparr>source = Path ''big.png'',
      resizing = Some \<lparr>width = Some (Num 1920), height = Some (Num 1920), fit = Some Inside,
                        withoutEnlargement = Some True\<rparr>\<rparr> \<and>
   fst (initialResize initial_globals (sharp (Path ''big.png''))) =
     \<lparr>source = Path ''big.png'',
      resizing = Some \<lparr>width = Some (Num 1920), height = Some (Num 1920), fit = Some Inside,
                        withoutEnlargement = Some True\<rparr>\<rparr>"
proof -
  have m: "(Num 15, refineCall initial_globals ''big.png'' (Num 15))
     \<in> set (attempts_log (compressWithRatio sim_env initial_globals sim_dir ''big.png'' 471040))"
    by (simp add: sim_big_log)
  have "fst (initialResize initial_globals (sharp (Path ''big.png''))) =
     \<lparr>source = Path ''big.png'',
      resizing = Some \<lparr>width = Some (Num 1920), height = Some (Num 1920), fit = Some Inside,
                        withoutEnlargement = Some True\<rparr>\<rparr>"
    by (simp add: initialResize_def initial_globals_def sharp_def resize_def)
  with C6_same_resize_from_source[OF m] m show ?thesis by simp
qed

text \<open>
  C7. The resize of an attempt, with a dimension counted as present when it is truthy
  (not \<^verbatim>\<open>null\<close>, 0 or NaN): both present, fill to the two values with
  \<^verbatim>\<open>withoutEnlargement\<close> unset (enlargement allowed); only the width, or only the
  height, fit inside that one value without enlargement; neither and
  \<^verbatim>\<open>MAX_DIMENSION > 0\<close>, fit inside the square of that side without enlargement;
  neither and \<^verbatim>\<open>MAX_DIMENSION \<le> 0\<close>, no resize. The copy inside the loop decides the same.
  (That fitting inside keeps the aspect ratio is a property of sharp.)
\<close>

theorem C7_resize_planner:
  "(truthy_number (targetWidth g) \<and> truthy_number (targetHeight g) \<longrightarrow>
      initialResize g (sharp i) =
        (\<lparr>source = i, resizing = Some \<lparr>width = targetWidth g, height = targetHeight g,
            fit = Some Fill, withoutEnlargement = None\<rparr>\<rparr>, True) \<and>
      enlargementAllowed \<lparr>width = targetWidth g, height = targetHeight g,
            fit = Some Fill, withoutEnlargement = None\<rparr>) \<and>
   (truthy_number (targetWidth g) \<and> \<not> truthy_number (targetHeight g) \<longrightarrow>
      initialResize g (sharp i) =
        (\<lparr>source = i, resizing = Some \<lparr>width = targetWidth g, height = None,
            fit = Some Inside, withoutEnlargement = Some True\<rparr>\<rparr>, True)) \<and>
   (\<not> truthy_number (targetWidth g) \<and> truthy_number (targetHeight g) \<longrightarrow>
      initialResize g (sharp i) =
        (\<lparr>source = i, resizing = Some \<lparr>width = None, height = targetHeight g,
            fit = Some Inside, withoutEnlargement = Some True\<rparr>\<rparr>, True)) \<and>
   (\<not> truthy_number (targetWidth g) \<and> \<not> truthy_number (targetHeight g) \<and> 0 < MAX_DIMENSION g \<longrightarrow>
      initialResize g (sharp i) =
        (\<lparr>source = i, resizing = Some \<lparr>width = Some (Num (of_int (MAX_DIMENSION g))),
            height = Some (Num (of_int (MAX_DIMENSION g))),
            fit = Some Inside, withoutEnlargement = Some True\<rparr>\<rparr>, True)) \<and>
   (\<not> truthy_number (targetWidth g) \<and> \<not> truthy_number (targetHeight g) \<and> MAX_DIMENSION g \<le> 0 \<longrightarrow>
      initialResize g (sharp i) = (\<lparr>source = i, resizing = None\<rparr>, False)) \<and>
   refineResize g (sharp i) = fst (initialResize g (sharp i)) \<and>
   \<not> enlargementAllowed \<lparr>width = a, height = b, fit = Some Inside, withoutEnlargement = Some True\<rparr>"
  by (simp add: initialResize_def sharp_def resize_def no_options_def resize_same
      enlargementAllowed_def)

theorem C7_resize_planner_witness:
  "initialResize (parse_args parseInt_decimal [''w=800'', ''h=600'']) (sharp (Path ''a.png'')) =
     (\<lparr>source = Path ''a.png'', resizing = Some \<lparr>width = Some (Num 800), height = Some (Num 600),
        fit = Some Fill, withoutEnlargement = None\<rparr>\<rparr>, True) \<and>
   initialResize (parse_args parseInt_decimal [''w=800'']) (sharp (Path ''a.png'')) =
     (\<lparr>source = Path ''a.png'', resizing = Some \<lparr>width = Some (Num 800), height = None,
        fit = Some Inside, withoutEnlargement = Some True\<rparr>\<rparr>, True) \<and>
   initialResize (parse_args parseInt_decimal [''h=600'']) (sharp (Path ''a.png'')) =
     (\<lparr>source = Path ''a.png'', resizing = Some \<lparr>width = None, height = Some (Num 600),
        fit = Some Inside, withoutEnlargement = Some True\<rparr>\<rparr>, True) \<and>
   initialResize (parse_args parseInt_decimal []) (sharp (Path ''a.png'')) =
     (\<lparr>source = Path ''a.png'', resizing = Some \<lparr>width = Some (Num 1920), height = Some (Num 1920),
        fit = Some Inside, withoutEnlargement = Some True\<rparr>\<rparr>, True) \<and>
   initialResize (initial_globals\<lparr>MAX_DIMENSION := 0\<rparr>) (sharp (Path ''a.png'')) =
     (\<lparr>source = Path ''a.png'', resizing = None\<rparr>, False)"
proof -
  have wh: "parse_args parseInt_decimal [''w=800'', ''h=600''] =
      \<lparr>targetWidth = Some (Num 800), targetHeight = Some (Num 600), targetFormat = None,
       MAX_DIMENSION = 0\<rparr>"
    and w: "parse_args parseInt_decimal [''w=800''] =
      \<lparr>targetWidth = Some (Num 800), targetHeight = None, targetFormat = None, MAX_DIMENSION = 0\<rparr>"
    and h: "parse_args parseInt_decimal [''h=600''] =
      \<lparr>targetWidth = None, targetHeight = Some (Num 600), targetFormat = None, MAX_DIMENSION = 0\<rparr>"
    and n: "parse_args parseInt_decimal [] =
      \<lparr>targetWidth = None, targetHeight = None, targetFormat = None, MAX_DIMENSION = 1920\<rparr>"
    by (simp_all add: parse_args_def initial_globals_def apply_arg_def startsWith_def
        split_eq_1_def parseInt_decimal_def)
  from C7_resize_planner[of "parse_args parseInt_decimal [''w=800'', ''h=600'']" "Path ''a.png''"]
    C7_resize_planner[of "parse_args parseInt_decimal [''w=800'']" "Path ''a.png''"]
    C7_resize_planner[of "parse_args parseInt_decimal [''h=600'']" "Path ''a.png''"]
    C7_resize_planner[of "parse_args parseInt_decimal []" "Path ''a.png''"]
    C7_resize_planner[of "initial_globals\<lparr>MAX_DIMENSION := 0\<rparr>" "Path ''a.png''"]
  show ?thesis by (simp add: wh w h n initial_globals_def)
qed

text \<open>
  C8. If the pipeline of any attempt of a search throws, the search returns the original
  size and leaves the world as it was; the driver, having handed the file to the search,
  prints the processing line and the failure line, counts nothing, and goes on with the
  remaining files, each of which gets a line of its own.
\<close>

theorem C8_codec_failure_contained:
  assumes "(q, c) \<in> set (attempts_log (compressWithRatio e g (world st) fname n))"
    and "toBuffer e (world st) c = Inl err"
    and "getFileSize e (world st) fname = n" and "0 < n"
    and "\<not> (n \<le> TARGET_SIZE \<and> \<not> needsFormatConversion g fname \<and> \<not> needsResize g)"
  shows "returned (compressWithRatio e g (world st) fname n) = n \<and>
     world_after (compressWithRatio e g (world st) fname n) = world st \<and>
     processFiles e g (fname # rest) st =
       processFiles e g rest
         (st\<lparr>console := console st @ [Processing fname n, FailedToCompress fname]\<rparr>) \<and>
     (\<forall>f \<in> set rest.
        \<exists>ev \<in> set (console (processFiles e g (fname # rest) st)). event_file ev = Some f)"
proof -
  from caught_any[OF assms(1,2)]
  have r: "returned (compressWithRatio e g (world st) fname n) = n"
    and w: "world_after (compressWithRatio e g (world st) fname n) = world st"
    by simp_all
  from assms(5) have ns: "\<not> skipRule g fname n" by (simp add: skipRule_def)
  from r have "\<not> returned (compressWithRatio e g (world st) fname n) < n" by simp
  from step_failed[OF assms(3,4) ns this, of rest]
  have s: "processFiles e g (fname # rest) st =
       processFiles e g rest
         (st\<lparr>console := console st @ [Processing fname n, FailedToCompress fname]\<rparr>)"
    by (simp add: w)
  have "\<exists>ev \<in> set (console (processFiles e g (fname # rest) st)). event_file ev = Some f"
    if "f \<in> set rest" for f
    using every_file_reported[of f "fname # rest" e g st] that by simp
  with r w s show ?thesis by blast
qed

theorem C8_codec_failure_contained_witness:
  "(Num 54, firstCall initial_globals ''bad.webp'' (Num 54))
     \<in> set (attempts_log (compressWithRatio sim_env initial_globals (world sim_start) ''bad.webp'' 300000)) \<and>
   toBuffer sim_env (world sim_start) (firstCall initial_globals ''bad.webp'' (Num 54)) =
     Inl (Error ''unsupported image format'') \<and>
   getFileSize sim_env (world sim_start) ''bad.webp'' = 300000 \<and>
   returned (compressWithRatio sim_env initial_globals (world sim_start) ''bad.webp'' 300000) = 300000 \<and>
   world_after (compressWithRatio sim_env initial_globals (world sim_start) ''bad.webp'' 300000) =
     world sim_start \<and>
   (\<exists>ev \<in> set (console (processFiles sim_env initial_globals [''bad.webp'', ''photo.tiff''] sim_start)).
      event_file ev = Some ''photo.tiff'')"
proof -
  have m: "(Num 54, firstCall initial_globals ''bad.webp'' (Num 54))
     \<in> set (attempts_log (compressWithRatio sim_env initial_globals (world sim_start) ''bad.webp'' 300000))"
    by (simp add: attempts_log_eq estimatedQuality_300000)
  have f: "toBuffer sim_env (world sim_start) (firstCall initial_globals ''bad.webp'' (Num 54)) =
     Inl (Error ''unsupported image format'')"
    by (simp add: sim_env_def sim_toBuffer_def sim_start_def sim_dir_def firstCall_def
        initialResize_def initial_globals_def sharp_def resize_def)
  have s: "getFileSize sim_env (world sim_start) ''bad.webp'' = 300000"
    by (simp add: getFileSize_def sim_env_def sim_start_def sim_dir_def)
  have p: "(0::nat) < 300000" by simp
  have n: "\<not> (300000 \<le> TARGET_SIZE \<and> \<not> needsFormatConversion initial_globals ''bad.webp'' \<and>
      \<not> needsResize initial_globals)"
    by (simp add: TARGET_SIZE_def)
  note k = C8_codec_failure_contained[OF m f s p n, of "[''photo.tiff'']"]
  from k have r: "returned (compressWithRatio sim_env initial_globals (world sim_start) ''bad.webp'' 300000) = 300000"
    by blast
  from k have w: "world_after (compressWithRatio sim_env initial_globals (world sim_start) ''bad.webp'' 300000) =
     world sim_start"
    by blast
  from k have "\<forall>f \<in> set [''photo.tiff''].
      \<exists>ev \<in> set (console (processFiles sim_env initial_globals [''bad.webp'', ''photo.tiff''] sim_start)).
        event_file ev = Some f"
    by blast
  then have a: "\<exists>ev \<in> set (console (processFiles sim_env initial_globals [''bad.webp'', ''photo.tiff''] sim_start)).
      event_file ev = Some ''photo.tiff''"
    by (rule bspec) simp
  from m f s r w a show ?thesis by blast
qed

text \<open>
  C9. Every attempt of a search is made at an integer quality between 1 and 95. When the
  encoder is the PNG one, the option passed is the compression level
  \<open>(100 - quality) div 10\<close>, an integer between 0 and 9; otherwise the option passed is
  the quality itself.
\<close>

theorem C9_encode_parameters_valid:
  assumes "(q, c) \<in> set (attempts_log (compressWithRatio e g w filePath originalSize))"
  shows "\<exists>k::int. q = Num (of_int k) \<and> 1 \<le> k \<and> k \<le> 95 \<and>
     (if encoder c = Png
      then options c = CompressionLevel (Num (of_int ((100 - k) div 10))) \<and>
           0 \<le> (100 - k) div 10 \<and> (100 - k) div 10 \<le> 9
      else options c = Quality (Num (of_int k)))"
proof -
  let ?L = "attempts_log (compressWithRatio e g w filePath originalSize)"
  obtain k0 :: int where k0: "estimatedQuality originalSize = Num (of_int k0)"
    and range: "10 \<le> k0" "k0 \<le> 95"
    using estimatedQuality_int[of originalSize] by blast
  from assms obtain i where i: "i < length ?L" and at: "?L ! i = (q, c)"
    by (auto simp add: in_set_conv_nth)
  define k where "k = k0 - 10 * int i"
  from log_quality[OF k0 i] at have q: "q = Num (of_int k)" by (simp add: k_def)
  have upper: "k \<le> 95" using range by (simp add: k_def)
  have lower: "1 \<le> k"
  proof (cases i)
    case 0
    with range show ?thesis by (simp add: k_def)
  next
    case (Suc j)
    with i have "Suc j < length ?L" by simp
    from log_guard[OF this] have "js_gt (fst (?L ! j)) (Num 10)" by (auto simp add: loopGuard_def)
    moreover from i Suc have "fst (?L ! j) = Num (of_int (k0 - 10 * int j))"
      using log_quality[OF k0, of j e g w filePath] by simp
    ultimately have "10 < k0 - 10 * int j" by (simp only: js_gt_int)
    with Suc show ?thesis by (simp add: k_def)
  qed
  from assms have c: "c = refineCall g filePath q" by (rule log_calls)
  have "if encoder c = Png
      then options c = CompressionLevel (Num (of_int ((100 - k) div 10))) \<and>
           0 \<le> (100 - k) div 10 \<and> (100 - k) div 10 \<le> 9
      else options c = Quality (Num (of_int k))"
    using level_range[OF lower upper]
    by (simp add: c q refineCall_def encoderFor_Png formatOptionsFor_def compressionLevel_int)
  with q lower upper show ?thesis by blast
qed

theorem C9_encode_parameters_valid_witness:
  "(Num 5, refineCall initial_globals ''big.png'' (Num 5))
     \<in> set (attempts_log (compressWithRatio sim_env initial_globals sim_dir ''big.png'' 471040)) \<and>
   (\<exists>k::int. Num 5 = Num (of_int k) \<and> 1 \<le> k \<and> k \<le> 95 \<and>
      options (refineCall initial_globals ''big.png'' (Num 5)) = Quality (Num (of_int k)))"
proof -
  have m: "(Num 5, refineCall initial_globals ''big.png'' (Num 5))
     \<in> set (attempts_log (compressWithRatio sim_env initial_globals sim_dir ''big.png'' 471040))"
    by (simp add: sim_big_log)
  have "encoder (refineCall initial_globals ''big.png'' (Num 5)) \<noteq> Png"
    by (simp add: refineCall_def encoderFor_def outputFormat_def initial_globals_def)
  with C9_encode_parameters_valid[OF m] m show ?thesis by auto
qed

text \<open>
  C10. One turn of the driver's loop goes one of three ways. A file whose size reads as
  0, because \<^verbatim>\<open>statSync\<close> threw or because the file is empty, is passed over and no
  search is run. A file of \<open>m > 0\<close> bytes that the skip rule covers is counted as skipped
  and no search is run. Any other file is given to \<^verbatim>\<open>compressWithRatio\<close> together with
  that size \<open>m > 0\<close>, so the size ratio of the search is a finite positive number. Also,
  every processing line of a batch carries a positive size. (At size 0 the ratio would be
  \<open>Infinity\<close>.)
\<close>

theorem C10_search_gets_positive_size:
  "(Processing f n \<in> set (console (compressImages e g w)) \<longrightarrow>
      0 < n \<and> (\<exists>r. sizeRatio n = Num r \<and> 0 < r)) \<and>
   (getFileSize e (world st) fname = 0 \<longrightarrow>
      processFiles e g (fname # rest) st =
        processFiles e g rest (st\<lparr>console := console st @ [SkippingUnreadable fname]\<rparr>)) \<and>
   (getFileSize e (world st) fname = m \<and> 0 < m \<and>
    (m \<le> TARGET_SIZE \<and> \<not> needsFormatConversion g fname \<and> \<not> needsResize g) \<longrightarrow>
      processFiles e g (fname # rest) st =
        processFiles e g rest
          (st\<lparr>skippedCount := skippedCount st + 1,
              console := console st @ [SkippingUnderTarget fname m]\<rparr>)) \<and>
   (getFileSize e (world st) fname = m \<and> 0 < m \<and>
    \<not> (m \<le> TARGET_SIZE \<and> \<not> needsFormatConversion g fname \<and> \<not> needsResize g) \<longrightarrow>
      processFiles e g (fname # rest) st =
        processFiles e g rest
          (let r = compressWithRatio e g (world st) fname m
           in if returned r < m then
                st\<lparr>world := world_after r, processedCount := processedCount st + 1,
                   console := console st @ [Processing fname m, Compressed fname (returned r)]\<rparr>
              else
                st\<lparr>world := world_after r,
                   console := console st @ [Processing fname m, FailedToCompress fname]\<rparr>) \<and>
      (\<exists>r. sizeRatio m = Num r \<and> 0 < r)) \<and>
   (statSync e w fname = Inr 0 \<longrightarrow> getFileSize e w fname = 0) \<and>
   (statSync e w fname = Inl err \<longrightarrow> getFileSize e w fname = 0) \<and>
   sizeRatio 0 = PosInfinity"
proof -
  have ratio: "\<exists>r. sizeRatio k = Num r \<and> 0 < r" if "0 < k" for k
  proof -
    from that have "sizeRatio k = Num (of_nat TARGET_SIZE / of_nat k)" by (rule sizeRatio_pos)
    moreover from that have "(0::rat) < of_nat TARGET_SIZE / of_nat k"
      by (simp add: TARGET_SIZE_def)
    ultimately show ?thesis by blast
  qed
  have line: "0 < n" if p: "Processing f n \<in> set (console (compressImages e g w))"
  proof (cases "readdirSync e w")
    case (Inl err')
    with p show ?thesis by (simp add: compressImages_def)
  next
    case (Inr files)
    show ?thesis
    proof (cases "filter isImageFile files = []")
      case True
      with p Inr show ?thesis by (simp add: compressImages_def)
    next
      case False
      with p Inr have "Processing f n \<in> set (console (processFiles e g (filter isImageFile files)
          \<lparr>world = w, processedCount = 0, skippedCount = 0, console = []\<rparr>))"
        by (simp add: compressImages_def Let_def)
      from processing_positive[OF this] show ?thesis by simp
    qed
  qed
  have skipped: "processFiles e g (fname # rest) st =
        processFiles e g rest
          (st\<lparr>skippedCount := skippedCount st + 1,
              console := console st @ [SkippingUnderTarget fname m]\<rparr>)"
    if "getFileSize e (world st) fname = m \<and> 0 < m \<and>
      (m \<le> TARGET_SIZE \<and> \<not> needsFormatConversion g fname \<and> \<not> needsResize g)"
    using that step_skipped[of e st fname m g rest] by (simp add: skipRule_def)
  have searched: "processFiles e g (fname # rest) st =
        processFiles e g rest
          (let r = compressWithRatio e g (world st) fname m
           in if returned r < m then
                st\<lparr>world := world_after r, processedCount := processedCount st + 1,
                   console := console st @ [Processing fname m, Compressed fname (returned r)]\<rparr>
              else
                st\<lparr>world := world_after r,
                   console := console st @ [Processing fname m, FailedToCompress fname]\<rparr>)"
    if h: "getFileSize e (world st) fname = m \<and> 0 < m \<and>
      \<not> (m \<le> TARGET_SIZE \<and> \<not> needsFormatConversion g fname \<and> \<not> needsResize g)"
  proof -
    from h have a: "getFileSize e (world st) fname = m" and b: "0 < m"
      and c: "\<not> skipRule g fname m" by (simp_all add: skipRule_def)
    from step_searched[OF a b c] show ?thesis .
  qed
  have unreadable: "processFiles e g (fname # rest) st =
        processFiles e g rest (st\<lparr>console := console st @ [SkippingUnreadable fname]\<rparr>)"
    if "getFileSize e (world st) fname = 0"
    using that by (rule step_unreadable)
  have s0: "getFileSize e w fname = 0" if "statSync e w fname = Inr 0"
    using that by (simp add: getFileSize_def)
  have s1: "getFileSize e w fname = 0" if "statSync e w fname = Inl err"
    using that by (simp add: getFileSize_def)
  from ratio line skipped searched unreadable s0 s1 sizeRatio_0 show ?thesis by blast
qed

theorem C10_search_gets_positive_size_witness:
  "Processing ''photo.tiff'' 500000 \<in> set (console (compressImages sim_env initial_globals sim_dir)) \<and>
   (0::nat) < 500000 \<and> (\<exists>r. sizeRatio 500000 = Num r \<and> 0 < r) \<and>
   getFileSize sim_env (world sim_start) ''photo.tiff'' = 500000 \<and>
   \<not> (500000 \<le> TARGET_SIZE \<and> \<not> needsFormatConversion initial_globals ''photo.tiff'' \<and>
      \<not> needsResize initial_globals) \<and>
   processFiles sim_env initial_globals [''photo.tiff''] sim_start =
     processFiles sim_env initial_globals []
       (let r = compressWithRatio sim_env initial_globals (world sim_start) ''photo.tiff'' 500000
        in if returned r < 500000 then
             sim_start\<lparr>world := world_after r, processedCount := processedCount sim_start + 1,
               console := console sim_start @
                 [Processing ''photo.tiff'' 500000, Compressed ''photo.tiff'' (returned r)]\<rparr>
           else
             sim_start\<lparr>world := world_after r,
               console := console sim_start @
                 [Processing ''photo.tiff'' 500000, FailedToCompress ''photo.tiff'']\<rparr>) \<and>
   getFileSize sim_env (world sim_start) ''empty.tif'' = 0 \<and>
   processFiles sim_env initial_globals [''empty.tif''] sim_start =
     processFiles sim_env initial_globals []
       (sim_start\<lparr>console := console sim_start @ [SkippingUnreadable ''empty.tif'']\<rparr>) \<and>
   statSync sim_env sim_dir ''empty.tif'' = Inr 0 \<and>
   statSync sim_env sim_dir ''ghost.png'' = Inl (Error ''ENOENT'') \<and>
   getFileSize sim_env sim_dir ''ghost.png'' = 0"
proof -
  have p: "Processing ''photo.tiff'' 500000 \<in> set (console (compressImages sim_env initial_globals sim_dir))"
    by (simp add: sim_batch_console)
  have s: "statSync sim_env sim_dir ''empty.tif'' = Inr 0"
    "statSync sim_env sim_dir ''ghost.png'' = Inl (Error ''ENOENT'')"
    by (simp_all add: sim_env_def sim_dir_def)
  have z: "getFileSize sim_env (world sim_start) ''empty.tif'' = 0"
    by (simp add: getFileSize_def sim_env_def sim_start_def sim_dir_def)
  have n: "getFileSize sim_env (world sim_start) ''photo.tiff'' = 500000"
    by (simp add: getFileSize_def sim_env_def sim_start_def sim_dir_def)
  have pos: "(0::nat) < 500000" by simp
  have ns: "\<not> (500000 \<le> TARGET_SIZE \<and> \<not> needsFormatConversion initial_globals ''photo.tiff'' \<and>
      \<not> needsResize initial_globals)"
    by (simp add: TARGET_SIZE_def)
  note k1 = C10_search_gets_positive_size[where f = "''photo.tiff''" and n = 500000 and e = sim_env
      and g = initial_globals and w = sim_dir and st = sim_start and fname = "''photo.tiff''"
      and rest = "[]" and m = 500000 and err = "Error ''ENOENT''"]
  note k2 = C10_search_gets_positive_size[where f = "''photo.tiff''" and n = 500000 and e = sim_env
      and g = initial_globals and w = sim_dir and st = sim_start and fname = "''empty.tif''"
      and rest = "[]" and m = 500000 and err = "Error ''ENOENT''"]
  note k3 = C10_search_gets_positive_size[where f = "''photo.tiff''" and n = 500000 and e = sim_env
      and g = initial_globals and w = sim_dir and st = sim_start and fname = "''ghost.png''"
      and rest = "[]" and m = 500000 and err = "Error ''ENOENT''"]
  from k1 p have r: "\<exists>r. sizeRatio 500000 = Num r \<and> 0 < r" by blast
  from k1 n pos ns have a: "processFiles sim_env initial_globals [''photo.tiff''] sim_start =
     processFiles sim_env initial_globals []
       (let r = compressWithRatio sim_env initial_globals (world sim_start) ''photo.tiff'' 500000
        in if returned r < 500000 then
             sim_start\<lparr>world := world_after r, processedCount := processedCount sim_start + 1,
               console := console sim_start @
                 [Processing ''photo.tiff'' 500000, Compressed ''photo.tiff'' (returned r)]\<rparr>
           else
             sim_start\<lparr>world := world_after r,
               console := console sim_start @
                 [Processing ''photo.tiff'' 500000, FailedToCompress ''photo.tiff'']\<rparr>)"
    by blast
  from k2 z have b: "processFiles sim_env initial_globals [''empty.tif''] sim_start =
     processFiles sim_env initial_globals []
       (sim_start\<lparr>console := console sim_start @ [SkippingUnreadable ''empty.tif'']\<rparr>)"
    by blast
  from k3 s(2) have c: "getFileSize sim_env sim_dir ''ghost.png'' = 0" by blast
  from p pos r n ns a z b s c show ?thesis by blast
qed

end
